theory Spec2Isabelle
  imports Complex_Main "HOL-Library.Multiset" "HOL-Library.Sublist"
    "HOL-Library.Char_ord" "HOL-Library.List_Lexorder"
begin

section \<open>Conflict records and the record store\<close>

text \<open>
  The backend keeps conflict events in one table, reached through a query client
  (\<^verbatim>\<open>prisma.conflict\<close>). A JavaScript \<^verbatim>\<open>Date\<close> is its time value, the number of
  milliseconds since the epoch; coordinates are floating-point numbers, kept here as
  rationals because no operation below computes with them. The optional \<^verbatim>\<open>fatalities\<close>
  column is \<^verbatim>\<open>null\<close> when unknown.
\<close>

type_synonym instant = int

record conflict =
  id_c :: string
  title :: string
  description :: "string option"
  country :: string
  region :: string
  latitude :: rat
  longitude :: rat
  date :: instant
  fatalities :: "int option"
  eventType :: string
  source :: string
  createdAt :: instant
  updatedAt :: instant

text \<open>The table is the list of its rows, in the order the store scans them.\<close>

type_synonym store = "conflict list"

datatype http_error =
  BadRequest "string list"
| InternalError

subsection \<open>Filters of the query client\<close>

text \<open>
  A string filter \<^verbatim>\<open>{ contains: s, mode: 'insensitive' }\<close> reaches the database as the
  pattern \<^verbatim>\<open>%s%\<close> of its case-insensitive pattern match. The client does not escape
  \<^verbatim>\<open>s\<close>: inside it \<^verbatim>\<open>%\<close> stands for any run of characters, \<^verbatim>\<open>_\<close> for any one
  character, and a backslash makes the character after it stand for itself. Since the
  pattern ends with the \<^verbatim>\<open>%\<close> that the client appends, it never ends in a backslash
  with nothing after it (which the database would refuse). Case folding is modelled on
  the ASCII letters.
\<close>

definition toLower :: "char \<Rightarrow> char" where
  "toLower c =
     (let n = (of_char c :: nat) in if 65 \<le> n \<and> n \<le> 90 then char_of (n + 32) else c)"

definition backslash :: char where
  "backslash = CHR 0x5C"

fun like :: "string \<Rightarrow> string \<Rightarrow> bool" where
  "like [] [] = True"
| "like [] (c # cs) = False"
| "like (p # ps) [] = (p = CHR ''%'' \<and> like ps [])"
| "like (p # ps) (c # cs) =
     (if p = CHR ''%'' then like ps (c # cs) \<or> like (p # ps) cs
      else if p = CHR ''_'' then like ps cs
      else if p = backslash then
        (case ps of [] \<Rightarrow> False | e # es \<Rightarrow> c = e \<and> like es cs)
      else c = p \<and> like ps cs)"

definition contains_insensitive :: "string \<Rightarrow> string \<Rightarrow> bool" where
  "contains_insensitive s v = like (map toLower (''%'' @ s @ ''%'')) (map toLower v)"

record date_filter =
  gte :: "instant option"
  lte :: "instant option"

record where_input =
  where_country :: "string option"
  where_region :: "string option"
  where_eventType :: "string option"
  where_date :: "date_filter option"

definition no_filter :: where_input where
  "no_filter = \<lparr>where_country = None, where_region = None, where_eventType = None,
     where_date = None\<rparr>"

definition holds_string :: "string option \<Rightarrow> string \<Rightarrow> bool" where
  "holds_string f v = (case f of None \<Rightarrow> True | Some s \<Rightarrow> contains_insensitive s v)"

definition holds_date :: "date_filter option \<Rightarrow> instant \<Rightarrow> bool" where
  "holds_date f d =
     (case f of None \<Rightarrow> True
      | Some b \<Rightarrow> (case gte b of None \<Rightarrow> True | Some lo \<Rightarrow> lo \<le> d) \<and>
                  (case lte b of None \<Rightarrow> True | Some hi \<Rightarrow> d \<le> hi))"

definition matches :: "where_input \<Rightarrow> conflict \<Rightarrow> bool" where
  "matches w r \<longleftrightarrow>
     holds_string (where_country w) (country r) \<and>
     holds_string (where_region w) (region r) \<and>
     holds_string (where_eventType w) (eventType r) \<and>
     holds_date (where_date w) (date r)"

definition count_where :: "store \<Rightarrow> where_input \<Rightarrow> nat" where
  "count_where st w = length (filter (matches w) st)"

subsection \<open>Ordering\<close>

text \<open>
  \<^verbatim>\<open>orderBy: { field: direction }\<close> sorts on one column. A \<^verbatim>\<open>null\<close> sorts as larger than
  every value (the database default: last when ascending, first when descending). Rows
  that agree on the column keep the order the store delivers them in.
\<close>

definition le_null_last :: "('a::linorder) option \<Rightarrow> 'a option \<Rightarrow> bool" where
  "le_null_last a b =
     (case b of None \<Rightarrow> True | Some y \<Rightarrow> (case a of None \<Rightarrow> False | Some x \<Rightarrow> x \<le> y))"

definition column_le :: "string \<Rightarrow> (conflict \<Rightarrow> conflict \<Rightarrow> bool) option" where
  "column_le f =
     (if f = ''date'' then Some (\<lambda>a b. date a \<le> date b)
      else if f = ''fatalities'' then Some (\<lambda>a b. le_null_last (fatalities a) (fatalities b))
      else if f = ''country'' then Some (\<lambda>a b. country a \<le> country b)
      else if f = ''eventType'' then Some (\<lambda>a b. eventType a \<le> eventType b)
      else if f = ''id'' then Some (\<lambda>a b. id_c a \<le> id_c b)
      else if f = ''title'' then Some (\<lambda>a b. title a \<le> title b)
      else if f = ''description'' then
        Some (\<lambda>a b. le_null_last (description a) (description b))
      else if f = ''region'' then Some (\<lambda>a b. region a \<le> region b)
      else if f = ''latitude'' then Some (\<lambda>a b. latitude a \<le> latitude b)
      else if f = ''longitude'' then Some (\<lambda>a b. longitude a \<le> longitude b)
      else if f = ''source'' then Some (\<lambda>a b. source a \<le> source b)
      else if f = ''createdAt'' then Some (\<lambda>a b. createdAt a \<le> createdAt b)
      else if f = ''updatedAt'' then Some (\<lambda>a b. updatedAt a \<le> updatedAt b)
      else None)"

definition order_le :: "string \<times> string \<Rightarrow> (conflict \<Rightarrow> conflict \<Rightarrow> bool) option" where
  "order_le ob =
     (case column_le (fst ob) of
        None \<Rightarrow> None
      | Some le \<Rightarrow>
          if snd ob = ''asc'' then Some le
          else if snd ob = ''desc'' then Some (\<lambda>a b. le b a)
          else None)"

fun insert_by :: "('a \<Rightarrow> 'a \<Rightarrow> bool) \<Rightarrow> 'a \<Rightarrow> 'a list \<Rightarrow> 'a list" where
  "insert_by le x [] = [x]"
| "insert_by le x (y # ys) = (if le x y then x # y # ys else y # insert_by le x ys)"

definition sort_by :: "('a \<Rightarrow> 'a \<Rightarrow> bool) \<Rightarrow> 'a list \<Rightarrow> 'a list" where
  "sort_by le xs = foldr (insert_by le) xs []"

text \<open>
  \<^verbatim>\<open>findMany({ where, skip, take, orderBy })\<close>: the matching rows, ordered, without the
  first \<^verbatim>\<open>skip\<close> of them, at most \<^verbatim>\<open>take\<close> of them. The client throws on a negative
  \<^verbatim>\<open>skip\<close> and on an unknown column or direction; a negative \<^verbatim>\<open>take\<close> counts from the
  end of the ordered rows.
\<close>

definition findMany ::
  "store \<Rightarrow> where_input \<Rightarrow> int \<Rightarrow> int \<Rightarrow> string \<times> string \<Rightarrow> http_error + conflict list" where
  "findMany st w skip tk ob =
     (case order_le ob of
        None \<Rightarrow> Inl InternalError
      | Some le \<Rightarrow>
          if skip < 0 then Inl InternalError
          else
            let rows = sort_by le (filter (matches w) st) in
            if 0 \<le> tk then Inr (take (nat tk) (drop (nat skip) rows))
            else Inr (rev (take (nat (- tk)) (drop (nat skip) (rev rows)))))"

text \<open>\<^verbatim>\<open>findMany({ orderBy })\<close> with no filter and no window returns every row.\<close>

definition findAll :: "store \<Rightarrow> where_input \<Rightarrow> string \<times> string \<Rightarrow> http_error + conflict list" where
  "findAll st w ob =
     (case order_le ob of
        None \<Rightarrow> Inl InternalError
      | Some le \<Rightarrow> Inr (sort_by le (filter (matches w) st)))"

subsection \<open>Aggregates\<close>

text \<open>
  \<^verbatim>\<open>_sum\<close> and \<^verbatim>\<open>_avg\<close> of a nullable column range over the rows where the column is
  present, and are \<^verbatim>\<open>null\<close> when there is no such row. \<^verbatim>\<open>x || 0\<close> replaces \<^verbatim>\<open>null\<close>
  (and a zero) by \<^verbatim>\<open>0\<close>.
\<close>

definition present :: "'a option list \<Rightarrow> 'a list" where
  "present vs = concat (map (\<lambda>v. case v of None \<Rightarrow> [] | Some x \<Rightarrow> [x]) vs)"

definition agg_sum :: "int option list \<Rightarrow> int option" where
  "agg_sum vs = (if present vs = [] then None else Some (sum_list (present vs)))"


definition or_zero :: "('a::zero) option \<Rightarrow> 'a" where
  "or_zero v = (case v of None \<Rightarrow> 0 | Some x \<Rightarrow> x)"

text \<open>\<^verbatim>\<open>groupBy({ by: [column], _count: true })\<close>: one entry for each value that occurs.\<close>

definition groupBy_count :: "(conflict \<Rightarrow> string) \<Rightarrow> store \<Rightarrow> (string \<times> nat) list" where
  "groupBy_count col st =
     map (\<lambda>k. (k, length (filter (\<lambda>r. col r = k) st))) (remdups (map col st))"


section \<open>Statistics\<close>

record stats_summary =
  totalConflicts :: nat
  totalFatalities :: int
  recentConflicts :: nat
  conflictsByRegion :: "(string \<times> nat) list"
  conflictsByEventType :: "(string \<times> nat) list"

text \<open>The handler of \<^verbatim>\<open>GET /api/conflicts/stats\<close>; \<^verbatim>\<open>now\<close> is \<^verbatim>\<open>Date.now()\<close>.\<close>

definition get_stats :: "store \<Rightarrow> instant \<Rightarrow> stats_summary" where
  "get_stats st now =
     \<lparr>totalConflicts = count_where st no_filter,
      totalFatalities = or_zero (agg_sum (map fatalities st)),
      recentConflicts =
        count_where st (no_filter\<lparr>where_date :=
          Some \<lparr>gte = Some (now - 30 * 24 * 60 * 60 * 1000), lte = None\<rparr>\<rparr>),
      conflictsByRegion = groupBy_count region st,
      conflictsByEventType = groupBy_count eventType st\<rparr>"

section \<open>Conflicts of one region\<close>








section \<open>Request validation\<close>

text \<open>
  The query string reaches the server as text. A numeric parameter is modelled by how the
  validator's number conversion reads its text (\<^verbatim>\<open>Number(text)\<close> reads such text as the
  same number); the text parameters are kept as text.

  A date parameter is read twice, and the two readings differ. The validator reads text
  made of digits only as a count of milliseconds and any other text through the
  \<^verbatim>\<open>Date\<close> constructor; the middleware keeps the error only and drops the value. The
  handler then reads the raw text again with \<^verbatim>\<open>new Date(String(text))\<close>, which gives
  Invalid Date for a long run of digits. A date parameter is therefore modelled by both
  readings: \<^verbatim>\<open>joi_date\<close>, the instant the validator reads (\<^verbatim>\<open>None\<close> when it refuses the
  text), and \<^verbatim>\<open>new_Date\<close>, the time value of the handler's \<^verbatim>\<open>Date\<close> (\<^verbatim>\<open>None\<close> for
  Invalid Date).
\<close>

datatype numtext = NumText rat | NotNum

datatype datetext = DateText (joi_date: "instant option") (new_Date: "instant option")

record query =
  q_page :: "numtext option"
  q_limit :: "numtext option"
  q_country :: "string option"
  q_region :: "string option"
  q_eventType :: "string option"
  q_startDate :: "datetext option"
  q_endDate :: "datetext option"
  q_sortBy :: "string option"
  q_sortOrder :: "string option"

record detail =
  path :: string
  message :: string

definition dquote :: char where
  "dquote = CHR 0x22"

definition err :: "string \<Rightarrow> string \<Rightarrow> detail" where
  "err p m = \<lparr>path = p, message = dquote # p @ dquote # m\<rparr>"

fun join :: "string \<Rightarrow> string list \<Rightarrow> string" where
  "join sep [] = []"
| "join sep [x] = x"
| "join sep (x # y # ys) = x @ sep @ join sep (y # ys)"

text \<open>\<^verbatim>\<open>String(n)\<close> for an integer: its decimal digits, after a minus sign when negative.\<close>

definition digit_char :: "int \<Rightarrow> char" where
  "digit_char d = char_of (48 + d)"

function show_digits :: "int \<Rightarrow> string" where
  "show_digits n =
     (if n < 10 then [digit_char n] else show_digits (n div 10) @ [digit_char (n mod 10)])"
  by pat_completeness auto
termination
  by (relation "measure nat") auto

declare show_digits.simps [simp del]

definition show_int :: "int \<Rightarrow> string" where
  "show_int i = (if i < 0 then CHR ''-'' # show_digits (- i) else show_digits i)"

text \<open>
  \<^verbatim>\<open>Joi.number()\<close> with the rules \<^verbatim>\<open>.integer()\<close>, \<^verbatim>\<open>.min(lo)\<close> and \<^verbatim>\<open>.max(hi)\<close>: an absent
  value passes; text that is no number, or a number outside the safe integers, fails
  the type; then every rule is tried in the order it was declared.
\<close>

definition is_integer :: "rat \<Rightarrow> bool" where
  "is_integer r \<longleftrightarrow> of_int \<lfloor>r\<rfloor> = r"

definition MAX_SAFE_INTEGER :: rat where
  "MAX_SAFE_INTEGER = 9007199254740991"

definition number_errors :: "string \<Rightarrow> int option \<Rightarrow> int option \<Rightarrow> numtext option \<Rightarrow> detail list" where
  "number_errors p lo hi v =
     (case v of
        None \<Rightarrow> []
      | Some NotNum \<Rightarrow> [err p '' must be a number'']
      | Some (NumText r) \<Rightarrow>
          if r > MAX_SAFE_INTEGER \<or> r < - MAX_SAFE_INTEGER then [err p '' must be a safe number'']
          else
            (if is_integer r then [] else [err p '' must be an integer'']) @
            (case lo of None \<Rightarrow> []
             | Some m \<Rightarrow> if of_int m \<le> r then []
                 else [err p ('' must be greater than or equal to '' @ show_int m)]) @
            (case hi of None \<Rightarrow> []
             | Some m \<Rightarrow> if r \<le> of_int m then []
                 else [err p ('' must be less than or equal to '' @ show_int m)]))"

text \<open>\<^verbatim>\<open>Joi.string()\<close>: an absent value passes, the empty string does not.\<close>

definition string_errors :: "string \<Rightarrow> string option \<Rightarrow> detail list" where
  "string_errors p v =
     (case v of None \<Rightarrow> []
      | Some s \<Rightarrow> if s = [] then [err p '' is not allowed to be empty''] else [])"

text \<open>\<^verbatim>\<open>Joi.string().valid(...)\<close>: an absent value passes, a present one must be listed.\<close>

definition valid_errors :: "string \<Rightarrow> string list \<Rightarrow> string option \<Rightarrow> detail list" where
  "valid_errors p allowed v =
     (case v of None \<Rightarrow> []
      | Some s \<Rightarrow> if s \<in> set allowed then []
          else [err p ('' must be one of ['' @ join '', '' allowed @ '']'')])"

text \<open>
  \<^verbatim>\<open>Joi.date()\<close>: an absent value passes, a present one must be text that the validator
  reads as a date.
\<close>

definition date_errors :: "string \<Rightarrow> datetext option \<Rightarrow> detail list" where
  "date_errors p v =
     (case v of
        None \<Rightarrow> []
      | Some d \<Rightarrow> if joi_date d = None then [err p '' must be a valid date''] else [])"

text \<open>
  \<^verbatim>\<open>conflictQuerySchema.query\<close>: the keys are checked in the order of the schema. The
  list below holds every violation; \<^verbatim>\<open>validate\<close> reports all of them only when its
  option \<^verbatim>\<open>abortEarly\<close> is off, and the first one alone otherwise. The option is on
  unless the caller turns it off.
\<close>

definition conflictQuerySchema :: "query \<Rightarrow> detail list" where
  "conflictQuerySchema q =
     number_errors ''page'' (Some 1) None (q_page q) @
     number_errors ''limit'' (Some 1) (Some 1000) (q_limit q) @
     string_errors ''country'' (q_country q) @
     string_errors ''region'' (q_region q) @
     string_errors ''eventType'' (q_eventType q) @
     date_errors ''startDate'' (q_startDate q) @
     date_errors ''endDate'' (q_endDate q) @
     valid_errors ''sortBy'' [''date'', ''fatalities'', ''country'', ''eventType''] (q_sortBy q) @
     valid_errors ''sortOrder'' [''asc'', ''desc''] (q_sortOrder q)"

definition validate :: "bool \<Rightarrow> (query \<Rightarrow> detail list) \<Rightarrow> query \<Rightarrow> detail list" where
  "validate abortEarly schema q = (if abortEarly then take 1 (schema q) else schema q)"

text \<open>
  The middleware \<^verbatim>\<open>validateRequest\<close> for a schema with a \<^verbatim>\<open>query\<close> part: it calls
  \<^verbatim>\<open>schema.query.validate(req.query)\<close> with no options and answers 400 with the
  messages of the reported details, joined by a comma. When there is no error it passes
  the request on unchanged: the handler sees the raw query, not the validated values.
\<close>

definition validateRequest :: "(query \<Rightarrow> detail list) \<Rightarrow> query \<Rightarrow> http_error + unit" where
  "validateRequest schema q =
     (let details = validate True schema q;
          validationErrors =
            (if details \<noteq> [] then [''Query: '' @ join '', '' (map message details)] else [])
      in if length validationErrors > 0 then Inl (BadRequest validationErrors) else Inr ())"

section \<open>Listing conflicts\<close>

record pagination_info =
  page :: int
  limit :: int
  total_c :: int
  totalPages :: int
  hasNext :: bool
  hasPrev :: bool

record page_response =
  conflicts :: "conflict list"
  pagination :: pagination_info

text \<open>
  \<^verbatim>\<open>const { page = 1, ... } = req.query\<close> followed by \<^verbatim>\<open>Number(page)\<close>: the default when
  the parameter is absent, the number read from its text otherwise. The result is
  \<^verbatim>\<open>None\<close> when that is not an integer: the query client refuses such a window.
\<close>

definition Number_or :: "int \<Rightarrow> numtext option \<Rightarrow> int option" where
  "Number_or d v =
     (case v of
        None \<Rightarrow> Some d
      | Some NotNum \<Rightarrow> None
      | Some (NumText r) \<Rightarrow> if is_integer r then Some \<lfloor>r\<rfloor> else None)"

definition String_or :: "string \<Rightarrow> string option \<Rightarrow> string" where
  "String_or d v = (case v of None \<Rightarrow> d | Some s \<Rightarrow> s)"

text \<open>\<^verbatim>\<open>if (country) where.country = { contains: String(country), mode: 'insensitive' }\<close>\<close>

definition string_filter :: "string option \<Rightarrow> string option" where
  "string_filter v = (case v of None \<Rightarrow> None | Some s \<Rightarrow> if s \<noteq> [] then Some s else None)"

text \<open>
  \<^verbatim>\<open>if (startDate) where.date.gte = new Date(String(startDate))\<close>: the bound is the
  handler's own reading of the text. When that is Invalid Date the client refuses the
  filter and throws.
\<close>

definition date_bound :: "datetext option \<Rightarrow> instant option" where
  "date_bound v = (case v of None \<Rightarrow> None | Some d \<Rightarrow> new_Date d)"

definition invalid_Date :: "datetext option \<Rightarrow> bool" where
  "invalid_Date v = (case v of None \<Rightarrow> False | Some d \<Rightarrow> new_Date d = None)"

definition build_where :: "query \<Rightarrow> where_input" where
  "build_where q =
     \<lparr>where_country = string_filter (q_country q),
      where_region = string_filter (q_region q),
      where_eventType = string_filter (q_eventType q),
      where_date =
        (if q_startDate q \<noteq> None \<or> q_endDate q \<noteq> None
         then Some \<lparr>gte = date_bound (q_startDate q), lte = date_bound (q_endDate q)\<rparr>
         else None)\<rparr>"

text \<open>\<^verbatim>\<open>const orderBy = { [String(sortBy)]: String(sortOrder) }\<close>, with the defaults.\<close>

definition order_of :: "query \<Rightarrow> string \<times> string" where
  "order_of q = (String_or ''date'' (q_sortBy q), String_or ''desc'' (q_sortOrder q))"

text \<open>
  The route \<^verbatim>\<open>GET /api/conflicts\<close>: the validation middleware, then the handler. The
  client throws, and the route answers 500, when it is handed an Invalid Date or a window
  that is not made of integers. The first happens behind the middleware, for date text
  that the validator accepts and the handler's \<^verbatim>\<open>Date\<close> does not read; the second does
  not, since the validator and \<^verbatim>\<open>Number\<close> read a number alike.
  \<^verbatim>\<open>Math.ceil(total / limit)\<close> is taken in exact arithmetic; the middleware lets no
  \<^verbatim>\<open>limit\<close> below 1 through to the division.
\<close>

definition get_conflicts :: "store \<Rightarrow> query \<Rightarrow> http_error + page_response" where
  "get_conflicts st q =
     (case validateRequest conflictQuerySchema q of
        Inl e \<Rightarrow> Inl e
      | Inr _ \<Rightarrow>
          (case (Number_or 1 (q_page q), Number_or 10 (q_limit q)) of
             (Some pg, Some lmt) \<Rightarrow>
               if invalid_Date (q_startDate q) \<or> invalid_Date (q_endDate q)
               then Inl InternalError
               else
                 let skip = (pg - 1) * lmt;
                     w = build_where q;
                     orderBy = order_of q
                 in (case findMany st w skip lmt orderBy of
                       Inl e \<Rightarrow> Inl e
                     | Inr cs \<Rightarrow>
                         let total = int (count_where st w);
                             pages = \<lceil>rat_of_int total / rat_of_int lmt\<rceil>
                         in Inr \<lparr>conflicts = cs,
                                 pagination = \<lparr>page = pg, limit = lmt, total_c = total,
                                   totalPages = pages, hasNext = pg < pages,
                                   hasPrev = pg > 1\<rparr>\<rparr>)
           | _ \<Rightarrow> Inl InternalError))"

section \<open>Export\<close>

text \<open>
  The ISO text of a time value: its UTC calendar date and time of day, as
  \<^verbatim>\<open>YYYY-MM-DDTHH:mm:ss.sssZ\<close>; a year outside 0000 to 9999 is written with a sign and
  at least six digits. The month, the day and the parts of the time of day are written
  with a fixed count of decimal digits, zeros in front. The calendar date of a day number
  is computed in the proleptic Gregorian calendar, by 400-year eras starting on 1 March.
  The time value of a \<^verbatim>\<open>Date\<close> lies within 8 640 000 000 000 000 milliseconds of the
  epoch; what the method does on a \<^verbatim>\<open>Date\<close> without a time value is \<^verbatim>\<open>date_toISOString\<close>
  below.
\<close>

fun pad_digits :: "nat \<Rightarrow> int \<Rightarrow> string" where
  "pad_digits 0 n = []"
| "pad_digits (Suc w) n = pad_digits w (n div 10) @ [digit_char (n mod 10)]"

definition civil_from_days :: "int \<Rightarrow> int \<times> int \<times> int" where
  "civil_from_days z =
     (let z' = z + 719468;
          era = z' div 146097;
          doe = z' mod 146097;
          yoe = (doe - doe div 1460 + doe div 36524 - doe div 146096) div 365;
          doy = doe - (365 * yoe + yoe div 4 - yoe div 100);
          mp = (5 * doy + 2) div 153;
          d = doy - (153 * mp + 2) div 5 + 1;
          m = (if mp < 10 then mp + 3 else mp - 9);
          y = yoe + era * 400 + (if m \<le> 2 then 1 else 0)
      in (y, m, d))"

definition year_text :: "int \<Rightarrow> string" where
  "year_text y =
     (if 0 \<le> y \<and> y \<le> 9999 then pad_digits 4 y
      else (if y < 0 then CHR ''-'' else CHR ''+'') #
           (if \<bar>y\<bar> < 1000000 then pad_digits 6 \<bar>y\<bar> else show_digits \<bar>y\<bar>))"

definition year_of :: "instant \<Rightarrow> int" where
  "year_of t = fst (civil_from_days (t div 86400000))"

definition iso_date :: "instant \<Rightarrow> string" where
  "iso_date t =
     (case civil_from_days (t div 86400000) of
        (y, m, d) \<Rightarrow> year_text y @ ''-'' @ pad_digits 2 m @ ''-'' @ pad_digits 2 d)"

definition iso_time :: "instant \<Rightarrow> string" where
  "iso_time t =
     (let ms = t mod 86400000
      in pad_digits 2 (ms div 3600000) @ '':'' @ pad_digits 2 (ms div 60000 mod 60) @ '':'' @
         pad_digits 2 (ms div 1000 mod 60) @ ''.'' @ pad_digits 3 (ms mod 1000))"

definition toISOString :: "instant \<Rightarrow> string" where
  "toISOString t = iso_date t @ ''T'' @ iso_time t @ ''Z''"

text \<open>
  A \<^verbatim>\<open>Date\<close> object holds a time value or is Invalid Date, and the method
  \<^verbatim>\<open>toISOString\<close> throws a \<^verbatim>\<open>RangeError\<close> on Invalid Date; thrown in a handler, it makes
  the route answer 500. The export takes \<^verbatim>\<open>new Date()\<close>, the reading of the clock, which
  is never invalid.

  The client hands every row over with its date as a \<^verbatim>\<open>Date\<close> object. A stored timestamp
  whose year lies outside 0000 to 9999 arrives as Invalid Date.
\<close>

datatype jsdate = Invalid_Date | Valid_Date instant

definition client_date :: "instant \<Rightarrow> jsdate" where
  "client_date t =
     (if 0 \<le> year_of t \<and> year_of t \<le> 9999 then Valid_Date t else Invalid_Date)"

definition date_toISOString :: "jsdate \<Rightarrow> http_error + string" where
  "date_toISOString d =
     (case d of Invalid_Date \<Rightarrow> Inl InternalError | Valid_Date t \<Rightarrow> Inr (toISOString t))"

text \<open>\<^verbatim>\<open>s.split(c)\<close>: the parts of \<^verbatim>\<open>s\<close> between the occurrences of \<^verbatim>\<open>c\<close>.\<close>

fun split :: "char \<Rightarrow> string \<Rightarrow> string list" where
  "split c [] = [[]]"
| "split c (x # xs) =
     (if x = c then [] # split c xs
      else (case split c xs of [] \<Rightarrow> [[x]] | p # ps \<Rightarrow> (x # p) # ps))"


text \<open>The title cell: \<^verbatim>\<open>`"${conflict.title.replace(/"/g, '""')}"`\<close>.\<close>

definition double_quotes :: "string \<Rightarrow> string" where
  "double_quotes t = concat (map (\<lambda>c. if c = dquote then [dquote, dquote] else [c]) t)"

definition title_cell :: "string \<Rightarrow> string" where
  "title_cell t = [dquote] @ double_quotes t @ [dquote]"

text \<open>
  The cells of a row. \<^verbatim>\<open>[...].join(',')\<close> writes each cell as \<^verbatim>\<open>String\<close> does; how
  a floating-point coordinate is written is left to the parameter \<^verbatim>\<open>num\<close>. The Date
  cell is \<^verbatim>\<open>conflict.date.toISOString().split('T')[0]\<close> and fails when the method
  throws; \<^verbatim>\<open>conflicts.map\<close> stops at the first row that fails.
\<close>

definition csvHeaders :: string where
  "csvHeaders = join '','' [''ID'', ''Title'', ''Country'', ''Region'', ''Event Type'', ''Date'',
     ''Fatalities'', ''Latitude'', ''Longitude'', ''Source'']"

definition date_cell :: "jsdate \<Rightarrow> http_error + string" where
  "date_cell d =
     (case date_toISOString d of Inl e \<Rightarrow> Inl e | Inr s \<Rightarrow> Inr (hd (split CHR ''T'' s)))"

definition fatalities_cell :: "int option \<Rightarrow> string" where
  "fatalities_cell f = show_int (or_zero f)"

definition csv_row :: "(rat \<Rightarrow> string) \<Rightarrow> conflict \<Rightarrow> http_error + string" where
  "csv_row num c =
     (case date_cell (client_date (date c)) of
        Inl e \<Rightarrow> Inl e
      | Inr d \<Rightarrow>
          Inr (join '',''
            [id_c c, title_cell (title c), country c, region c, eventType c, d,
             fatalities_cell (fatalities c), num (latitude c), num (longitude c), source c]))"

fun map_rows :: "('a \<Rightarrow> http_error + 'b) \<Rightarrow> 'a list \<Rightarrow> http_error + 'b list" where
  "map_rows f [] = Inr []"
| "map_rows f (x # xs) =
     (case f x of
        Inl e \<Rightarrow> Inl e
      | Inr y \<Rightarrow> (case map_rows f xs of Inl e \<Rightarrow> Inl e | Inr ys \<Rightarrow> Inr (y # ys)))"

text \<open>
  The handler of \<^verbatim>\<open>GET /api/conflicts/export\<close>; \<^verbatim>\<open>now\<close> is the time of the call and
  \<^verbatim>\<open>format\<close> the query parameter, absent or a text. The JSON branch writes an Invalid
  Date as \<^verbatim>\<open>null\<close> and does not throw.
\<close>

record export_document =
  exportDate :: string
  totalRecords :: nat
  data :: "conflict list"

datatype export_response = Csv string | Json export_document

definition newline :: string where
  "newline = [CHR 0x0A]"

definition export_conflicts ::
  "(rat \<Rightarrow> string) \<Rightarrow> store \<Rightarrow> instant \<Rightarrow> string option \<Rightarrow> http_error + export_response" where
  "export_conflicts num st now format =
     (case findAll st no_filter (''date'', ''desc'') of
        Inl e \<Rightarrow> Inl e
      | Inr cs \<Rightarrow>
          if String_or ''json'' format = ''csv''
          then
            (case map_rows (csv_row num) cs of
               Inl e \<Rightarrow> Inl e
             | Inr rows \<Rightarrow>
                 let csvRows = join newline rows;
                     csvContent = join newline [csvHeaders, csvRows]
                 in Inr (Csv csvContent))
          else Inr (Json \<lparr>exportDate = toISOString now, totalRecords = length cs, data = cs\<rparr>))"

section \<open>Sample rows\<close>

text \<open>
  Four of the rows that \<^verbatim>\<open>seed.ts\<close> loads, with the columns the examples look at; the
  store assigns the ids, and the description and the coordinates are left out.
\<close>

definition seed_row ::
  "string \<Rightarrow> string \<Rightarrow> string \<Rightarrow> string \<Rightarrow> instant \<Rightarrow> int option \<Rightarrow> string \<Rightarrow> conflict" where
  "seed_row i t c rg d f e =
     \<lparr>id_c = i, title = t, description = None, country = c, region = rg, latitude = 0,
      longitude = 0, date = d, fatalities = f, eventType = e, source = ''ACLED'',
      createdAt = 0, updatedAt = 0\<rparr>"

definition seed_store :: store where
  "seed_store =
     [seed_row ''c1'' ''Armed clashes between government forces and rebels in Aleppo'' ''Syria''
        ''Middle East''
        1678838400000 (Some 23) ''Battles'',
      seed_row ''c2'' ''Drone strike on military facility'' ''Yemen'' ''Middle East''
        1693872000000 (Some 15) ''Remote violence'',
      seed_row ''c3'' ''Inter-communal violence over resources'' ''Nigeria''
        ''Western Africa'' 1696982400000 (Some 34) ''Violence against civilians'',
      seed_row ''c4'' ''Explosive device detonation in public area'' ''Iraq''
        ''Middle East'' 1702512000000 (Some 27) ''Explosions/Remote violence'']"

section \<open>Notions used in the statements\<close>

text \<open>The page and the page size a request asks for, and the rows its filters select.\<close>

definition page_of :: "query \<Rightarrow> int" where
  "page_of q = (case q_page q of Some (NumText r) \<Rightarrow> \<lfloor>r\<rfloor> | _ \<Rightarrow> 1)"

definition limit_of :: "query \<Rightarrow> int" where
  "limit_of q = (case q_limit q of Some (NumText r) \<Rightarrow> \<lfloor>r\<rfloor> | _ \<Rightarrow> 10)"

text \<open>A filter text without any character that the pattern match treats specially.\<close>

definition literal :: "string \<Rightarrow> bool" where
  "literal s \<longleftrightarrow> CHR ''%'' \<notin> set s \<and> CHR ''_'' \<notin> set s \<and> backslash \<notin> set s"

text \<open>The handler's \<^verbatim>\<open>Date\<close> reads every date that the request gives.\<close>

definition readable_dates :: "query \<Rightarrow> bool" where
  "readable_dates q \<longleftrightarrow> \<not> invalid_Date (q_startDate q) \<and> \<not> invalid_Date (q_endDate q)"

text \<open>What the ordering lemmas need of a comparison: any two rows compare, transitively.\<close>

definition total_preorder :: "('a \<Rightarrow> 'a \<Rightarrow> bool) \<Rightarrow> bool" where
  "total_preorder le \<longleftrightarrow> (\<forall>a b. le a b \<or> le b a) \<and> (\<forall>a b c. le a b \<and> le b c \<longrightarrow> le a c)"

definition matching :: "store \<Rightarrow> query \<Rightarrow> conflict list" where
  "matching st q = filter (matches (build_where q)) st"

definition window :: "query \<Rightarrow> 'a list \<Rightarrow> 'a list" where
  "window q xs = take (nat (limit_of q)) (drop (nat ((page_of q - 1) * limit_of q)) xs)"

text \<open>
  Requests used as examples: no parameter at all, and a filter on country and start date.
  \<^verbatim>\<open>iso_text t\<close> stands for date text such as \<^verbatim>\<open>2023-01-01\<close>, which the validator and
  the handler read as the same instant; \<^verbatim>\<open>digits_text t\<close> stands for the digits of
  \<^verbatim>\<open>t\<close>, such as \<^verbatim>\<open>1704067200000\<close>, which the validator reads as that count of
  milliseconds and the handler's \<^verbatim>\<open>Date\<close> does not read.
\<close>

definition no_params :: query where
  "no_params = \<lparr>q_page = None, q_limit = None, q_country = None, q_region = None,
     q_eventType = None, q_startDate = None, q_endDate = None, q_sortBy = None,
     q_sortOrder = None\<rparr>"

definition iso_text :: "instant \<Rightarrow> datetext" where
  "iso_text t = DateText (Some t) (Some t)"

definition digits_text :: "instant \<Rightarrow> datetext" where
  "digits_text t = DateText (Some t) None"

definition syria_query :: query where
  "syria_query = no_params\<lparr>q_country := Some ''syria'', q_startDate := Some (iso_text 1672531200000)\<rparr>"

text \<open>A request for the third page of two rows.\<close>

definition far_page_query :: query where
  "far_page_query = no_params\<lparr>q_page := Some (NumText 3), q_limit := Some (NumText 2)\<rparr>"

text \<open>Two rows of the same date, stored with the larger id first.\<close>

definition tied_store :: store where
  "tied_store =
     [seed_row ''b'' ''Second report'' ''Syria'' ''Middle East'' 1678838400000 (Some 5) ''Battles'',
      seed_row ''a'' ''First report'' ''Syria'' ''Middle East'' 1678838400000 (Some 7) ''Battles'']"

text \<open>
  The ordering the specification describes: the requested ordering, and the id ascending
  among rows that the requested ordering does not separate.
\<close>

definition tie_break_le :: "(conflict \<Rightarrow> conflict \<Rightarrow> bool) \<Rightarrow> conflict \<Rightarrow> conflict \<Rightarrow> bool" where
  "tie_break_le le a b = (le a b \<and> (if le b a then id_c a \<le> id_c b else True))"

text \<open>
  Further requests: a country filter sorted on fatalities; a date range whose end is before
  its start, written as dates and written as digits; a far page with a start date written
  as digits; a country filter with a wildcard; the three rows with most fatalities; and
  a request with two invalid parameters.
\<close>

definition example_query :: query where
  "example_query = no_params\<lparr>q_country := Some ''syria'', q_sortBy := Some ''fatalities'',
     q_sortOrder := Some ''desc'', q_page := Some (NumText 1), q_limit := Some (NumText 5)\<rparr>"

definition reversed_dates_query :: query where
  "reversed_dates_query = no_params\<lparr>q_startDate := Some (iso_text 1704067200000),
     q_endDate := Some (iso_text 1672531200000)\<rparr>"

definition reversed_digits_query :: query where
  "reversed_digits_query = no_params\<lparr>q_startDate := Some (digits_text 1704067200000),
     q_endDate := Some (digits_text 1672531200000)\<rparr>"

definition far_page_digits_query :: query where
  "far_page_digits_query = no_params\<lparr>q_page := Some (NumText 3), q_limit := Some (NumText 2),
     q_startDate := Some (digits_text 1672531200000)\<rparr>"

definition wildcard_query :: query where
  "wildcard_query = no_params\<lparr>q_country := Some ''_yria''\<rparr>"

definition top_three_query :: query where
  "top_three_query = no_params\<lparr>q_sortBy := Some ''fatalities'', q_sortOrder := Some ''desc'',
     q_page := Some (NumText 1), q_limit := Some (NumText 3)\<rparr>"

definition two_errors_query :: query where
  "two_errors_query = no_params\<lparr>q_page := Some (NumText 0), q_limit := Some (NumText 5000)\<rparr>"

text \<open>
  Reading a quoted field back, as the specification states the rule: the field is
  enclosed in double quotes, and inside them a doubled double quote stands for one.
\<close>

fun undouble :: "string \<Rightarrow> string" where
  "undouble (a # b # cs) =
     (if a = dquote \<and> b = dquote then dquote # undouble cs else a # undouble (b # cs))"
| "undouble cs = cs"

definition unescape_field :: "string \<Rightarrow> string option" where
  "unescape_field s =
     (case s of
        [] \<Rightarrow> None
      | q # rest \<Rightarrow>
          if q = dquote \<and> rest \<noteq> [] \<and> last rest = dquote then Some (undouble (butlast rest))
          else None)"

text \<open>
  The shape of a text: \<^verbatim>\<open>D\<close> in the pattern stands for a decimal digit, any other
  character for itself.
\<close>

definition is_digit :: "char \<Rightarrow> bool" where
  "is_digit c \<longleftrightarrow> 48 \<le> (of_char c :: int) \<and> (of_char c :: int) \<le> 57"

fun has_shape :: "string \<Rightarrow> string \<Rightarrow> bool" where
  "has_shape [] [] = True"
| "has_shape (p # ps) (c # cs) =
     ((if p = CHR ''D'' then is_digit c else c = p) \<and> has_shape ps cs)"
| "has_shape ps cs = False"

text \<open>A way of writing coordinates, for the examples: the integer part.\<close>

definition sample_num :: "rat \<Rightarrow> string" where
  "sample_num r = show_int \<lfloor>r\<rfloor>"

text \<open>A row dated 1 January 10000, and a row whose title holds double quotes.\<close>

definition far_future_row :: conflict where
  "far_future_row = seed_row ''c9'' ''Report'' ''Syria'' ''Middle East'' 253402300800000 None ''Battles''"

definition quoted_title_row :: conflict where
  "quoted_title_row = seed_row ''c7'' (''The '' @ [dquote] @ ''Green Line'' @ [dquote] @ '' clashes'')
     ''Syria'' ''Middle East'' 1709210096789 None ''Battles''"

section \<open>Properties of the aggregates\<close>

lemma sum_list_present: "sum_list (present vs) = sum_list (map or_zero vs)"
  by (induction vs) (auto simp: present_def or_zero_def split: option.splits)

lemma or_zero_agg_sum: "or_zero (agg_sum vs) = sum_list (map or_zero vs)"
  by (simp add: agg_sum_def or_zero_def sum_list_present [symmetric])

lemma matches_no_filter: "matches no_filter r"
  by (simp add: matches_def no_filter_def holds_string_def holds_date_def)

text \<open>
  C6. The statistics summary: \<^verbatim>\<open>totalFatalities\<close> is the sum of the fatalities of every
  row of the store, an absent value counting as 0; every row counts towards
  \<^verbatim>\<open>totalConflicts\<close>, also one whose fatalities are absent; \<^verbatim>\<open>recentConflicts\<close> counts
  the rows dated at or after \<^verbatim>\<open>now\<close> minus 30 days.
\<close>

theorem stats_totals:
  "totalFatalities (get_stats st now) =
     sum_list (map (\<lambda>r. case fatalities r of None \<Rightarrow> 0 | Some n \<Rightarrow> n) st) \<and>
   totalConflicts (get_stats st now) = length st \<and>
   recentConflicts (get_stats st now) =
     length (filter (\<lambda>r. now - 30 * 24 * 60 * 60 * 1000 \<le> date r) st)"
proof (intro conjI)
  have "totalFatalities (get_stats st now) = sum_list (map or_zero (map fatalities st))"
    by (simp add: get_stats_def or_zero_agg_sum)
  then show "totalFatalities (get_stats st now) =
     sum_list (map (\<lambda>r. case fatalities r of None \<Rightarrow> 0 | Some n \<Rightarrow> n) st)"
    by (simp add: comp_def or_zero_def)
  show "totalConflicts (get_stats st now) = length st"
    by (simp add: get_stats_def count_where_def matches_no_filter)
  show "recentConflicts (get_stats st now) =
     length (filter (\<lambda>r. now - 30 * 24 * 60 * 60 * 1000 \<le> date r) st)"
    by (simp add: get_stats_def count_where_def matches_def [abs_def] no_filter_def
        holds_string_def holds_date_def)
qed

lemma order_date_desc: "order_le (''date'', ''desc'') = Some (\<lambda>a b. date b \<le> date a)"
  by (simp add: order_le_def column_le_def)










section \<open>Properties of the list route\<close>

lemma validateRequest_ok: "validateRequest sch q = Inr () \<longleftrightarrow> sch q = []"
  by (cases "sch q") (simp_all add: validateRequest_def validate_def Let_def)

lemma validateRequest_bad:
  "sch q \<noteq> [] \<Longrightarrow> validateRequest sch q = Inl (BadRequest [''Query: '' @ message (hd (sch q))])"
  by (cases "sch q") (simp_all add: validateRequest_def validate_def Let_def)

lemma number_errors_ok:
  "number_errors p (Some lo) hi v = [] \<Longrightarrow>
     \<exists>n. Number_or d v = Some n \<and> (v = None \<and> n = d \<or> v = Some (NumText (of_int n)) \<and> lo \<le> n)"
  by (auto simp: number_errors_def Number_or_def is_integer_def le_floor_iff
      split: option.splits numtext.splits if_splits)

lemma number_errors_max:
  "number_errors p lo (Some hi) v = [] \<Longrightarrow> v = Some (NumText (of_int n)) \<Longrightarrow> n \<le> hi"
  by (auto simp: number_errors_def split: option.splits if_splits)

lemma schema_parts:
  assumes "conflictQuerySchema q = []"
  shows "number_errors ''page'' (Some 1) None (q_page q) = []"
    and "number_errors ''limit'' (Some 1) (Some 1000) (q_limit q) = []"
    and "string_errors ''country'' (q_country q) = []"
    and "string_errors ''region'' (q_region q) = []"
    and "string_errors ''eventType'' (q_eventType q) = []"
    and "date_errors ''startDate'' (q_startDate q) = []"
    and "date_errors ''endDate'' (q_endDate q) = []"
    and "valid_errors ''sortBy'' [''date'', ''fatalities'', ''country'', ''eventType''] (q_sortBy q) = []"
    and "valid_errors ''sortOrder'' [''asc'', ''desc''] (q_sortOrder q) = []"
  using assms by (simp_all add: conflictQuerySchema_def)

lemma valid_page:
  assumes "conflictQuerySchema q = []"
  shows "Number_or 1 (q_page q) = Some (page_of q)" and "1 \<le> page_of q"
  using number_errors_ok [OF schema_parts(1) [OF assms], of 1]
  by (auto simp: page_of_def)

lemma valid_limit:
  assumes "conflictQuerySchema q = []"
  shows "Number_or 10 (q_limit q) = Some (limit_of q)" and "1 \<le> limit_of q" and "limit_of q \<le> 1000"
  using number_errors_ok [OF schema_parts(2) [OF assms], of 10]
    number_errors_max [OF schema_parts(2) [OF assms]]
  by (auto simp: limit_of_def)

lemma valid_dates:
  assumes "conflictQuerySchema q = []"
  shows "q_startDate q = Some d \<Longrightarrow> joi_date d \<noteq> None"
    and "q_endDate q = Some d \<Longrightarrow> joi_date d \<noteq> None"
  using schema_parts(6,7) [OF assms]
  by (auto simp: date_errors_def split: if_splits)

lemma valid_order:
  assumes "conflictQuerySchema q = []"
  shows "fst (order_of q) \<in> {''date'', ''fatalities'', ''country'', ''eventType''}"
    and "snd (order_of q) \<in> {''asc'', ''desc''}"
  using schema_parts(8,9) [OF assms]
  by (auto simp: valid_errors_def order_of_def String_or_def split: option.splits if_splits)

lemma valid_order_le:
  assumes "conflictQuerySchema q = []"
  shows "\<exists>le. order_le (order_of q) = Some le"
  using valid_order [OF assms]
  by (auto simp: order_le_def column_le_def)

lemma sort_by_Nil: "sort_by le [] = []"
  by (simp add: sort_by_def)

lemma sort_by_Cons: "sort_by le (x # xs) = insert_by le x (sort_by le xs)"
  by (simp add: sort_by_def)

lemma mset_insert_by: "mset (insert_by le x xs) = add_mset x (mset xs)"
  by (induction xs) simp_all

lemma mset_sort_by: "mset (sort_by le xs) = mset xs"
  by (induction xs) (simp_all add: sort_by_Nil sort_by_Cons mset_insert_by)

lemma set_insert_by: "set (insert_by le x xs) = insert x (set xs)"
  by (induction xs) auto

lemma set_sort_by: "set (sort_by le xs) = set xs"
  by (induction xs) (simp_all add: sort_by_Nil sort_by_Cons set_insert_by)

lemma length_insert_by: "length (insert_by le x xs) = Suc (length xs)"
  by (induction xs) simp_all

lemma length_sort_by: "length (sort_by le xs) = length xs"
  by (induction xs) (simp_all add: sort_by_Nil sort_by_Cons length_insert_by)

lemma total_preorderD:
  assumes "total_preorder le"
  shows "\<not> le a b \<Longrightarrow> le b a" and "le a b \<Longrightarrow> le b c \<Longrightarrow> le a c"
  using assms unfolding total_preorder_def by blast+

lemma sorted_insert_by:
  assumes tp: "total_preorder le" and s: "sorted_wrt le xs"
  shows "sorted_wrt le (insert_by le x xs)"
  using s
proof (induction xs)
  case Nil
  then show ?case by simp
next
  case (Cons y ys)
  have ys: "\<And>z. z \<in> set ys \<Longrightarrow> le y z" and sys: "sorted_wrt le ys"
    using Cons.prems by simp_all
  show ?case
  proof (cases "le x y")
    case True
    have "\<And>z. z \<in> set ys \<Longrightarrow> le x z"
      using total_preorderD(2) [OF tp True] ys by blast
    then show ?thesis using True Cons.prems by simp
  next
    case False
    then have yx: "le y x" by (rule total_preorderD(1) [OF tp])
    have "sorted_wrt le (insert_by le x ys)" by (rule Cons.IH [OF sys])
    then show ?thesis using False yx ys by (simp add: set_insert_by)
  qed
qed

lemma sorted_sort_by: "total_preorder le \<Longrightarrow> sorted_wrt le (sort_by le xs)"
  by (induction xs) (simp_all add: sort_by_Nil sort_by_Cons sorted_insert_by)

lemma filter_insert_by_other:
  "\<not> P x \<Longrightarrow> filter P (insert_by le x xs) = filter P xs"
  by (induction xs) simp_all

lemma filter_insert_by_tie:
  assumes tp: "total_preorder le" and ax: "le a x" and xa: "le x a"
  shows "filter (\<lambda>b. le a b \<and> le b a) (insert_by le x xs) =
    x # filter (\<lambda>b. le a b \<and> le b a) xs"
proof (induction xs)
  case Nil
  then show ?case using ax xa by simp
next
  case (Cons y ys)
  show ?case
  proof (cases "le x y")
    case True
    then show ?thesis using ax xa by simp
  next
    case False
    have "\<not> le a y"
    proof
      assume "le a y"
      then have "le x y" by (rule total_preorderD(2) [OF tp xa])
      then show False using False by simp
    qed
    then show ?thesis using False Cons.IH by simp
  qed
qed

lemma sort_by_stable:
  assumes tp: "total_preorder le"
  shows "filter (\<lambda>b. le a b \<and> le b a) (sort_by le xs) = filter (\<lambda>b. le a b \<and> le b a) xs"
proof (induction xs)
  case Nil
  then show ?case by (simp add: sort_by_Nil)
next
  case (Cons x xs)
  show ?case
  proof (cases "le a x \<and> le x a")
    case True
    then have "filter (\<lambda>b. le a b \<and> le b a) (insert_by le x (sort_by le xs)) =
        x # filter (\<lambda>b. le a b \<and> le b a) (sort_by le xs)"
      using filter_insert_by_tie [OF tp, of a x] by blast
    then show ?thesis using True Cons.IH by (simp add: sort_by_Cons)
  next
    case False
    then have "filter (\<lambda>b. le a b \<and> le b a) (insert_by le x (sort_by le xs)) =
        filter (\<lambda>b. le a b \<and> le b a) (sort_by le xs)"
      by (rule filter_insert_by_other)
    then show ?thesis using False Cons.IH by (simp add: sort_by_Cons)
  qed
qed

lemma total_preorder_flip: "total_preorder le \<Longrightarrow> total_preorder (\<lambda>a b. le b a)"
  unfolding total_preorder_def by blast

lemma total_preorder_key: "total_preorder (\<lambda>a b. (k a :: 'k::linorder) \<le> k b)"
  unfolding total_preorder_def by auto

lemma le_null_last_total: "le_null_last (a :: ('k::linorder) option) b \<or> le_null_last b a"
  by (cases a; cases b) (auto simp: le_null_last_def)

lemma le_null_last_trans:
  "le_null_last (a :: ('k::linorder) option) b \<Longrightarrow> le_null_last b c \<Longrightarrow> le_null_last a c"
  by (cases a; cases b; cases c) (auto simp: le_null_last_def)

lemma total_preorder_null_last:
  "total_preorder (\<lambda>a b. le_null_last (k a :: ('k::linorder) option) (k b))"
  unfolding total_preorder_def using le_null_last_total le_null_last_trans by blast

lemma column_le_total:
  assumes "column_le f = Some le"
  shows "total_preorder le"
proof -
  have "le \<in> {\<lambda>a b. date a \<le> date b, \<lambda>a b. le_null_last (fatalities a) (fatalities b),
      \<lambda>a b. country a \<le> country b, \<lambda>a b. eventType a \<le> eventType b,
      \<lambda>a b. id_c a \<le> id_c b, \<lambda>a b. title a \<le> title b,
      \<lambda>a b. le_null_last (description a) (description b), \<lambda>a b. region a \<le> region b,
      \<lambda>a b. latitude a \<le> latitude b, \<lambda>a b. longitude a \<le> longitude b,
      \<lambda>a b. source a \<le> source b, \<lambda>a b. createdAt a \<le> createdAt b,
      \<lambda>a b. updatedAt a \<le> updatedAt b}"
    using assms unfolding column_le_def by (simp split: if_splits)
  then show ?thesis
    using total_preorder_key [of date] total_preorder_key [of country]
      total_preorder_key [of eventType] total_preorder_key [of id_c]
      total_preorder_key [of title] total_preorder_key [of region]
      total_preorder_key [of latitude] total_preorder_key [of longitude]
      total_preorder_key [of source] total_preorder_key [of createdAt]
      total_preorder_key [of updatedAt] total_preorder_null_last [of fatalities]
      total_preorder_null_last [of description]
    by blast
qed

lemma order_le_total:
  assumes "order_le ob = Some le"
  shows "total_preorder le"
proof -
  obtain c where c: "column_le (fst ob) = Some c" and "le = c \<or> le = (\<lambda>a b. c b a)"
    using assms unfolding order_le_def by (auto split: option.splits if_splits)
  then show ?thesis using column_le_total [OF c] total_preorder_flip by blast
qed

lemma findMany_window:
  assumes v: "conflictQuerySchema q = []" and o: "order_le (order_of q) = Some le"
  shows "findMany st (build_where q) ((page_of q - 1) * limit_of q) (limit_of q) (order_of q) =
     Inr (window q (sort_by le (matching st q)))"
proof -
  have skip: "\<not> (page_of q - 1) * limit_of q < 0"
    using valid_page(2) [OF v] valid_limit(2) [OF v] by (simp add: mult_less_0_iff)
  have lim: "0 \<le> limit_of q" using valid_limit(2) [OF v] by simp
  show ?thesis
    by (simp add: findMany_def o skip lim matching_def window_def)
qed

lemma get_conflicts_valid:
  assumes v: "conflictQuerySchema q = []" and o: "order_le (order_of q) = Some le"
    and rd: "readable_dates q"
  shows "get_conflicts st q =
     Inr \<lparr>conflicts = window q (sort_by le (matching st q)),
          pagination = \<lparr>page = page_of q, limit = limit_of q,
            total_c = int (length (matching st q)),
            totalPages = \<lceil>rat_of_int (int (length (matching st q))) / rat_of_int (limit_of q)\<rceil>,
            hasNext = (page_of q < \<lceil>rat_of_int (int (length (matching st q))) / rat_of_int (limit_of q)\<rceil>),
            hasPrev = (page_of q > 1)\<rparr>\<rparr>"
proof -
  have ok: "validateRequest conflictQuerySchema q = Inr ()"
    using v by (simp add: validateRequest_ok)
  have d: "(invalid_Date (q_startDate q) \<or> invalid_Date (q_endDate q)) = False"
    using rd by (simp add: readable_dates_def)
  have c: "int (count_where st (build_where q)) = int (length (matching st q))"
    by (simp add: count_where_def matching_def)
  show ?thesis
    unfolding get_conflicts_def
    by (simp only: ok valid_page(1) [OF v] valid_limit(1) [OF v] d c findMany_window [OF v o]
        Let_def sum.case prod.case option.case if_False)
qed

lemma ceiling_pages:
  assumes "1 \<le> (l::int)"
  shows "(\<lceil>rat_of_int t / rat_of_int l\<rceil> - 1) * l < t"
    and "t \<le> \<lceil>rat_of_int t / rat_of_int l\<rceil> * l"
proof -
  define c where "c = \<lceil>rat_of_int t / rat_of_int l\<rceil>"
  have lpos: "0 < rat_of_int l" using assms by simp
  have b1: "of_int c - 1 < rat_of_int t / rat_of_int l"
    unfolding c_def using ceiling_correct [of "rat_of_int t / rat_of_int l"] by blast
  have b2: "rat_of_int t / rat_of_int l \<le> of_int c"
    unfolding c_def by (rule le_of_int_ceiling)
  have "rat_of_int t \<le> of_int c * rat_of_int l"
    using pos_divide_le_eq [OF lpos, of "rat_of_int t" "of_int c"] b2 by blast
  then have "rat_of_int t \<le> rat_of_int (c * l)" by simp
  then have u: "t \<le> c * l" by (simp only: of_int_le_iff)
  have "(of_int c - 1) * rat_of_int l < rat_of_int t"
    using pos_less_divide_eq [OF lpos, of "of_int c - 1" "rat_of_int t"] b1 by blast
  then have "rat_of_int ((c - 1) * l) < rat_of_int t" by simp
  then have d: "(c - 1) * l < t" by (simp only: of_int_less_iff)
  show "(\<lceil>rat_of_int t / rat_of_int l\<rceil> - 1) * l < t" using d unfolding c_def .
  show "t \<le> \<lceil>rat_of_int t / rat_of_int l\<rceil> * l" using u unfolding c_def .
qed

lemma valid_response:
  assumes v: "conflictQuerySchema q = []" and o: "order_le (order_of q) = Some le"
    and rd: "readable_dates q"
  shows "\<exists>resp. get_conflicts st q = Inr resp \<and>
     conflicts resp = window q (sort_by le (matching st q)) \<and>
     page (pagination resp) = page_of q \<and>
     limit (pagination resp) = limit_of q \<and>
     total_c (pagination resp) = int (length (matching st q)) \<and>
     totalPages (pagination resp) =
       \<lceil>rat_of_int (total_c (pagination resp)) / rat_of_int (limit (pagination resp))\<rceil> \<and>
     hasNext (pagination resp) = (page (pagination resp) < totalPages (pagination resp)) \<and>
     hasPrev (pagination resp) = (page (pagination resp) > 1)"
  by (simp add: get_conflicts_valid [OF v o rd])

text \<open>
  Behind the middleware the handler fails when its \<^verbatim>\<open>Date\<close> does not read a date that
  the request gives; a page is answered only to a request that passed validation and
  whose dates the handler reads.
\<close>

lemma get_conflicts_unreadable:
  assumes v: "conflictQuerySchema q = []" and rd: "\<not> readable_dates q"
  shows "get_conflicts st q = Inl InternalError"
proof -
  have ok: "validateRequest conflictQuerySchema q = Inr ()"
    using v by (simp add: validateRequest_ok)
  have d: "(invalid_Date (q_startDate q) \<or> invalid_Date (q_endDate q)) = True"
    using rd by (simp add: readable_dates_def)
  show ?thesis
    unfolding get_conflicts_def
    by (simp only: ok valid_page(1) [OF v] valid_limit(1) [OF v] d
        sum.case prod.case option.case if_True)
qed

lemma get_conflicts_page:
  assumes "get_conflicts st q = Inr resp"
  shows "conflictQuerySchema q = []" and "readable_dates q"
proof -
  show v: "conflictQuerySchema q = []"
  proof (rule ccontr)
    assume "conflictQuerySchema q \<noteq> []"
    then have "get_conflicts st q = Inl (BadRequest [''Query: '' @ message (hd (conflictQuerySchema q))])"
      by (simp add: get_conflicts_def validateRequest_bad)
    then show False using assms by simp
  qed
  show "readable_dates q"
  proof (rule ccontr)
    assume "\<not> readable_dates q"
    then have "get_conflicts st q = Inl InternalError" by (rule get_conflicts_unreadable [OF v])
    then show False using assms by simp
  qed
qed


text \<open>
  Every request that passes validation and whose dates the handler reads is answered with
  a page: \<^verbatim>\<open>page\<close> and \<^verbatim>\<open>limit\<close> are the requested ones, \<^verbatim>\<open>total\<close> counts the rows that
  match the filters, the page holds at most \<^verbatim>\<open>limit\<close> and at most \<^verbatim>\<open>total\<close> rows,
  \<^verbatim>\<open>totalPages\<close> is \<^verbatim>\<open>total / limit\<close> rounded up, \<^verbatim>\<open>hasNext\<close> is \<^verbatim>\<open>page < totalPages\<close>
  and \<^verbatim>\<open>hasPrev\<close> is \<^verbatim>\<open>page > 1\<close>; a page beyond \<^verbatim>\<open>totalPages\<close> holds no rows.
\<close>

lemma page_shape:
  assumes "validateRequest conflictQuerySchema q = Inr ()" and rd: "readable_dates q"
  shows "\<exists>resp. get_conflicts st q = Inr resp \<and>
     (let p = pagination resp; n = int (length (conflicts resp)) in
        page p = page_of q \<and> limit p = limit_of q \<and>
        total_c p = int (count_where st (build_where q)) \<and>
        n \<le> limit p \<and> n \<le> total_c p \<and>
        totalPages p = \<lceil>rat_of_int (total_c p) / rat_of_int (limit p)\<rceil> \<and>
        (totalPages p - 1) * limit p < total_c p \<and> total_c p \<le> totalPages p * limit p \<and>
        hasNext p = (page p < totalPages p) \<and>
        hasPrev p = (page p > 1) \<and>
        (page p > totalPages p \<longrightarrow>
           conflicts resp = [] \<and> hasNext p = False \<and> hasPrev p = (page p > 1)))"
proof -
  have v: "conflictQuerySchema q = []" using assms(1) by (simp add: validateRequest_ok)
  obtain le where o: "order_le (order_of q) = Some le" using valid_order_le [OF v] by blast
  obtain resp where r: "get_conflicts st q = Inr resp"
    and cs: "conflicts resp = window q (sort_by le (matching st q))"
    and pg: "page (pagination resp) = page_of q"
    and lm: "limit (pagination resp) = limit_of q"
    and tt: "total_c (pagination resp) = int (length (matching st q))"
    and tp: "totalPages (pagination resp) =
       \<lceil>rat_of_int (total_c (pagination resp)) / rat_of_int (limit (pagination resp))\<rceil>"
    and hn: "hasNext (pagination resp) = (page (pagination resp) < totalPages (pagination resp))"
    and hp: "hasPrev (pagination resp) = (page (pagination resp) > 1)"
    using valid_response [OF v o rd, of st] by blast
  define p where "p = pagination resp"
  have l1: "1 \<le> limit p" unfolding p_def lm by (rule valid_limit(2) [OF v])
  have tc: "total_c p = int (count_where st (build_where q))"
    unfolding p_def tt by (simp add: matching_def count_where_def)
  have n1: "int (length (conflicts resp)) \<le> limit p"
    unfolding p_def lm cs window_def using valid_limit(2) [OF v] by simp
  have n2: "int (length (conflicts resp)) \<le> total_c p"
    unfolding p_def tt cs window_def by (simp add: length_sort_by)
  have c1: "(totalPages p - 1) * limit p < total_c p"
    unfolding p_def tp using ceiling_pages(1) [OF l1 [unfolded p_def]] .
  have c2: "total_c p \<le> totalPages p * limit p"
    unfolding p_def tp using ceiling_pages(2) [OF l1 [unfolded p_def]] .
  have far: "page p > totalPages p \<longrightarrow>
      conflicts resp = [] \<and> hasNext p = False \<and> hasPrev p = (page p > 1)"
  proof
    assume b: "page p > totalPages p"
    have "totalPages p \<le> page p - 1" using b by simp
    then have "totalPages p * limit p \<le> (page p - 1) * limit p"
      using l1 by (simp add: mult_right_mono)
    then have "total_c p \<le> (page p - 1) * limit p" using c2 by (rule order_trans [rotated])
    then have "int (length (matching st q)) \<le> (page_of q - 1) * limit_of q"
      unfolding p_def tt pg lm .
    then have "length (sort_by le (matching st q)) \<le> nat ((page_of q - 1) * limit_of q)"
      by (simp add: length_sort_by)
    then have e: "conflicts resp = []" unfolding cs window_def by simp
    have "hasNext p = False" using b hn unfolding p_def by simp
    then show "conflicts resp = [] \<and> hasNext p = False \<and> hasPrev p = (page p > 1)"
      using e hp unfolding p_def by simp
  qed
  have body: "page p = page_of q \<and> limit p = limit_of q \<and>
        total_c p = int (count_where st (build_where q)) \<and>
        int (length (conflicts resp)) \<le> limit p \<and> int (length (conflicts resp)) \<le> total_c p \<and>
        totalPages p = \<lceil>rat_of_int (total_c p) / rat_of_int (limit p)\<rceil> \<and>
        (totalPages p - 1) * limit p < total_c p \<and> total_c p \<le> totalPages p * limit p \<and>
        hasNext p = (page p < totalPages p) \<and>
        hasPrev p = (page p > 1) \<and>
        (page p > totalPages p \<longrightarrow>
           conflicts resp = [] \<and> hasNext p = False \<and> hasPrev p = (page p > 1))"
    using pg lm tc n1 n2 tp c1 c2 hn hp far unfolding p_def by blast
  show ?thesis
    unfolding Let_def using r body [unfolded p_def] by blast
qed

lemma page_examples:
  "map_sum id (\<lambda>resp. (map id_c (conflicts resp), pagination resp))
     (get_conflicts seed_store far_page_query) =
   Inr ([], \<lparr>page = 3, limit = 2, total_c = 4, totalPages = 2, hasNext = False, hasPrev = True\<rparr>)"
  "map_sum id (\<lambda>resp. (map id_c (conflicts resp), pagination resp))
     (get_conflicts seed_store syria_query) =
   Inr ([''c1''], \<lparr>page = 1, limit = 10, total_c = 1, totalPages = 1, hasNext = False,
     hasPrev = False\<rparr>)"
  "map_sum id (\<lambda>resp. (map id_c (conflicts resp), pagination resp))
     (get_conflicts seed_store example_query) =
   Inr ([''c1''], \<lparr>page = 1, limit = 5, total_c = 1, totalPages = 1, hasNext = False,
     hasPrev = False\<rparr>)"
  by code_simp+

text \<open>
  C3. The third page of two rows, with a start date written as digits: the validator
  reads the digits as a date and lets the request pass, four rows match that date, so
  the page lies beyond the last one and the specification asks for an empty page. The
  handler reads the raw text again, gets Invalid Date and answers 500.
\<close>

theorem far_page_with_digits_date_fails:
  "validateRequest conflictQuerySchema far_page_digits_query = Inr () \<and>
   q_page far_page_digits_query = Some (NumText 3) \<and>
   q_limit far_page_digits_query = Some (NumText 2) \<and>
   q_startDate far_page_digits_query = Some (DateText (Some 1672531200000) None) \<and>
   length (filter (\<lambda>r. 1672531200000 \<le> date r) seed_store) = 4 \<and>
   get_conflicts seed_store far_page_digits_query = Inl InternalError"
proof (intro conjI)
  show "validateRequest conflictQuerySchema far_page_digits_query = Inr ()" by code_simp
  show "q_page far_page_digits_query = Some (NumText 3)" by code_simp
  show "q_limit far_page_digits_query = Some (NumText 2)" by code_simp
  show "q_startDate far_page_digits_query = Some (DateText (Some 1672531200000) None)"
    by code_simp
  show "length (filter (\<lambda>r. 1672531200000 \<le> date r) seed_store) = 4" by code_simp
  show "get_conflicts seed_store far_page_digits_query = Inl InternalError" by code_simp
qed


text \<open>
  The filter built from a request holds of a row exactly when every condition that is
  present holds: the pattern match of each of \<^verbatim>\<open>country\<close>, \<^verbatim>\<open>region\<close> and
  \<^verbatim>\<open>eventType\<close> that is given, and the inclusive bounds of the dates that are given. A
  parameter that is absent contributes no condition.
\<close>

lemma like_percent_all: "like ''%'' v"
  by (induction v) simp_all

lemma toLower_percent: "toLower (CHR ''%'') = CHR ''%''"
  by code_simp

lemma contains_empty: "contains_insensitive [] v"
proof -
  have "like ''%%'' w" for w
    by (cases w) (simp_all add: like_percent_all)
  then show ?thesis by (simp add: contains_insensitive_def toLower_percent)
qed

lemma holds_string_filter:
  "holds_string (string_filter f) v \<longleftrightarrow> (\<forall>s. f = Some s \<longrightarrow> contains_insensitive s v)"
  by (cases f) (simp_all add: holds_string_def string_filter_def contains_empty)

lemma holds_date_bounds:
  "holds_date (if a \<noteq> None \<or> b \<noteq> None then Some \<lparr>gte = date_bound a, lte = date_bound b\<rparr> else None) d
     \<longleftrightarrow> (\<forall>t. date_bound a = Some t \<longrightarrow> t \<le> d) \<and> (\<forall>t. date_bound b = Some t \<longrightarrow> d \<le> t)"
  by (cases a; cases b) (auto simp: holds_date_def date_bound_def split: option.splits)

lemma where_is_conjunction:
  "matches (build_where q) r \<longleftrightarrow>
      (\<forall>s. q_country q = Some s \<longrightarrow> contains_insensitive s (country r)) \<and>
      (\<forall>s. q_region q = Some s \<longrightarrow> contains_insensitive s (region r)) \<and>
      (\<forall>s. q_eventType q = Some s \<longrightarrow> contains_insensitive s (eventType r)) \<and>
      (\<forall>t. date_bound (q_startDate q) = Some t \<longrightarrow> t \<le> date r) \<and>
      (\<forall>t. date_bound (q_endDate q) = Some t \<longrightarrow> date r \<le> t)"
  unfolding matches_def build_where_def
  by (simp only: where_input.select_convs holds_string_filter holds_date_bounds)

text \<open>
  For a filter text without \<^verbatim>\<open>%\<close>, \<^verbatim>\<open>_\<close> and backslash the pattern match is the test
  that the text occurs in the column as a contiguous part, letter case ignored.
\<close>

lemma of_char_toLower:
  "(of_char (toLower c) :: nat) =
     (if 65 \<le> (of_char c :: nat) \<and> (of_char c :: nat) \<le> 90 then of_char c + 32 else of_char c)"
  by (simp add: toLower_def Let_def)

lemma toLower_special:
  assumes "(of_char k :: nat) < 97"  "\<not> (65 \<le> (of_char k :: nat) \<and> (of_char k :: nat) \<le> 90)"
  shows "toLower c = k \<longleftrightarrow> c = k"
proof
  assume e: "toLower c = k"
  have "(of_char (toLower c) :: nat) = of_char k" using e by simp
  then have "(of_char c :: nat) = of_char k"
    using assms by (simp add: of_char_toLower split: if_splits)
  then show "c = k" by simp
next
  assume "c = k"
  then show "toLower c = k" using assms(2) by (auto simp: toLower_def Let_def)
qed

lemma special_codes:
  "(of_char (CHR ''%'') :: nat) = 37" "(of_char (CHR ''_'') :: nat) = 95"
  "(of_char backslash :: nat) = 92"
  by (simp_all add: backslash_def)

lemma literal_toLower: "literal s \<Longrightarrow> literal (map toLower s)"
proof -
  have a: "toLower c = CHR ''%'' \<longleftrightarrow> c = CHR ''%''" for c
    by (rule toLower_special) (simp_all add: special_codes)
  have b: "toLower c = CHR ''_'' \<longleftrightarrow> c = CHR ''_''" for c
    by (rule toLower_special) (simp_all add: special_codes)
  have d: "toLower c = backslash \<longleftrightarrow> c = backslash" for c
    by (rule toLower_special) (simp_all add: special_codes)
  assume "literal s"
  then show ?thesis
    unfolding literal_def set_map image_iff using a b d by metis
qed

lemma like_literal_prefix: "literal p \<Longrightarrow> like (p @ ''%'') v \<longleftrightarrow> prefix p v"
proof (induction p arbitrary: v)
  case Nil
  then show ?case by (simp add: like_percent_all)
next
  case (Cons a p)
  have l: "literal p" and a: "a \<noteq> CHR ''%''" "a \<noteq> CHR ''_''" "a \<noteq> backslash"
    using Cons.prems by (auto simp: literal_def)
  show ?case
  proof (cases v)
    case Nil
    then show ?thesis using a by simp
  next
    case (Cons c cs)
    then show ?thesis using a Cons.IH [OF l, of cs] by auto
  qed
qed

lemma like_percent_suffix:
  "like (CHR ''%'' # ps) v \<longleftrightarrow> (\<exists>ys zs. v = ys @ zs \<and> like ps zs)"
proof (induction v)
  case Nil
  then show ?case by simp
next
  case (Cons c cs)
  have "like (CHR ''%'' # ps) (c # cs) \<longleftrightarrow> like ps (c # cs) \<or> like (CHR ''%'' # ps) cs"
    by simp
  also have "\<dots> \<longleftrightarrow> like ps (c # cs) \<or> (\<exists>ys zs. cs = ys @ zs \<and> like ps zs)"
    using Cons.IH by simp
  also have "\<dots> \<longleftrightarrow> (\<exists>ys zs. c # cs = ys @ zs \<and> like ps zs)"
  proof
    assume "like ps (c # cs) \<or> (\<exists>ys zs. cs = ys @ zs \<and> like ps zs)"
    then show "\<exists>ys zs. c # cs = ys @ zs \<and> like ps zs"
    proof
      assume "like ps (c # cs)"
      then have "c # cs = [] @ (c # cs) \<and> like ps (c # cs)" by simp
      then show ?thesis by blast
    next
      assume "\<exists>ys zs. cs = ys @ zs \<and> like ps zs"
      then obtain ys zs where "cs = ys @ zs" "like ps zs" by blast
      then have "c # cs = (c # ys) @ zs \<and> like ps zs" by simp
      then show ?thesis by blast
    qed
  next
    assume "\<exists>ys zs. c # cs = ys @ zs \<and> like ps zs"
    then obtain ys zs where e: "c # cs = ys @ zs" and l: "like ps zs" by blast
    show "like ps (c # cs) \<or> (\<exists>ys zs. cs = ys @ zs \<and> like ps zs)"
    proof (cases ys)
      case Nil
      then show ?thesis using e l by simp
    next
      case (Cons y ys')
      then have "cs = ys' @ zs" using e by simp
      then show ?thesis using l by blast
    qed
  qed
  finally show ?case .
qed

lemma contains_literal:
  assumes "literal s"
  shows "contains_insensitive s v \<longleftrightarrow> sublist (map toLower s) (map toLower v)"
proof -
  have l: "literal (map toLower s)" by (rule literal_toLower [OF assms])
  have "contains_insensitive s v \<longleftrightarrow>
      like (CHR ''%'' # (map toLower s @ ''%'')) (map toLower v)"
    by (simp add: contains_insensitive_def toLower_percent)
  also have "\<dots> \<longleftrightarrow> (\<exists>ys zs. map toLower v = ys @ zs \<and> prefix (map toLower s) zs)"
    by (simp only: like_percent_suffix like_literal_prefix [OF l])
  also have "\<dots> \<longleftrightarrow> sublist (map toLower s) (map toLower v)"
    unfolding sublist_def prefix_def by blast
  finally show ?thesis .
qed

lemma wildcard_matches:
  "matches (build_where wildcard_query) (hd seed_store)"
  "\<not> matches (build_where wildcard_query) (seed_store ! 1)"
  by code_simp+

text \<open>
  C2. A country filter \<^verbatim>\<open>_yria\<close> passes validation and selects the row of Syria, whose
  country does not contain the text \<^verbatim>\<open>_yria\<close>; a filter \<^verbatim>\<open>%\<close> selects every row,
  though no country contains a percent sign. The filter text reaches the database as a
  pattern, not as the text to look for.
\<close>

theorem wildcard_filter_is_no_substring_test:
  "validateRequest conflictQuerySchema wildcard_query = Inr () \<and>
   q_country wildcard_query = Some ''_yria'' \<and>
   country (hd seed_store) = ''Syria'' \<and>
   \<not> sublist (map toLower ''_yria'') (map toLower ''Syria'') \<and>
   map_sum id (\<lambda>resp. (map id_c (conflicts resp), total_c (pagination resp)))
     (get_conflicts seed_store wildcard_query) = Inr ([''c1''], 1) \<and>
   map_sum id (\<lambda>resp. total_c (pagination resp))
     (get_conflicts seed_store (no_params\<lparr>q_country := Some ''%''\<rparr>)) = Inr 4 \<and>
   filter (\<lambda>r. sublist ''%'' (country r)) seed_store = []"
proof (intro conjI)
  show "validateRequest conflictQuerySchema wildcard_query = Inr ()" by code_simp
  show "q_country wildcard_query = Some ''_yria''" by code_simp
  show "country (hd seed_store) = ''Syria''" by code_simp
  show "\<not> sublist (map toLower ''_yria'') (map toLower ''Syria'')" by code_simp
  show "map_sum id (\<lambda>resp. (map id_c (conflicts resp), total_c (pagination resp)))
     (get_conflicts seed_store wildcard_query) = Inr ([''c1''], 1)" by code_simp
  show "map_sum id (\<lambda>resp. total_c (pagination resp))
     (get_conflicts seed_store (no_params\<lparr>q_country := Some ''%''\<rparr>)) = Inr 4" by code_simp
  show "filter (\<lambda>r. sublist ''%'' (country r)) seed_store = []" by code_simp
qed


text \<open>
  C1 as stated fails: with two rows of the same date stored as \<^verbatim>\<open>b\<close>, \<^verbatim>\<open>a\<close>, the default
  request returns them as \<^verbatim>\<open>b\<close>, \<^verbatim>\<open>a\<close>, which is not ascending in the id.
\<close>

theorem list_order_ties_counterexample:
  "get_conflicts tied_store no_params =
     Inr \<lparr>conflicts =
            [seed_row ''b'' ''Second report'' ''Syria'' ''Middle East'' 1678838400000 (Some 5) ''Battles'',
             seed_row ''a'' ''First report'' ''Syria'' ''Middle East'' 1678838400000 (Some 7) ''Battles''],
          pagination = \<lparr>page = 1, limit = 10, total_c = 2, totalPages = 1, hasNext = False,
            hasPrev = False\<rparr>\<rparr> \<and>
   order_le (order_of no_params) = Some (\<lambda>a b. date b \<le> date a) \<and>
   \<not> sorted_wrt (tie_break_le (\<lambda>a b. date b \<le> date a))
     [seed_row ''b'' ''Second report'' ''Syria'' ''Middle East'' 1678838400000 (Some 5) ''Battles'',
      seed_row ''a'' ''First report'' ''Syria'' ''Middle East'' 1678838400000 (Some 7) ''Battles'']"
proof (intro conjI)
  show "get_conflicts tied_store no_params =
     Inr \<lparr>conflicts =
            [seed_row ''b'' ''Second report'' ''Syria'' ''Middle East'' 1678838400000 (Some 5) ''Battles'',
             seed_row ''a'' ''First report'' ''Syria'' ''Middle East'' 1678838400000 (Some 7) ''Battles''],
          pagination = \<lparr>page = 1, limit = 10, total_c = 2, totalPages = 1, hasNext = False,
            hasPrev = False\<rparr>\<rparr>"
    by code_simp
  show "order_le (order_of no_params) = Some (\<lambda>a b. date b \<le> date a)"
    by (simp add: order_of_def no_params_def String_or_def order_le_def column_le_def)
  show "\<not> sorted_wrt (tie_break_le (\<lambda>a b. date b \<le> date a))
     [seed_row ''b'' ''Second report'' ''Syria'' ''Middle East'' 1678838400000 (Some 5) ''Battles'',
      seed_row ''a'' ''First report'' ''Syria'' ''Middle East'' 1678838400000 (Some 7) ''Battles'']"
    by code_simp
qed


text \<open>
  C1, as the code has it. For every request that passes validation, and whose dates the
  handler reads, the returned rows are the window \<^verbatim>\<open>skip (page - 1) * limit, take limit\<close>
  of the matching rows ordered on the requested column in the requested direction. The
  ordering is on that column alone: the ordered rows are a rearrangement of the matching
  rows, sorted on the column, and rows that agree on the column stay in the order the
  store delivers them. No ordering on the id is applied. The rows returned are a function
  of the store and the request.
\<close>

theorem list_order:
  assumes "validateRequest conflictQuerySchema q = Inr ()" and "readable_dates q"
  shows "\<exists>resp le. get_conflicts st q = Inr resp \<and> order_le (order_of q) = Some le \<and>
     conflicts resp =
       take (nat (limit_of q)) (drop (nat ((page_of q - 1) * limit_of q))
         (sort_by le (filter (matches (build_where q)) st))) \<and>
     mset (sort_by le (filter (matches (build_where q)) st)) =
       mset (filter (matches (build_where q)) st) \<and>
     sorted_wrt le (sort_by le (filter (matches (build_where q)) st)) \<and>
     (\<forall>a. filter (\<lambda>b. le a b \<and> le b a) (sort_by le (filter (matches (build_where q)) st)) =
          filter (\<lambda>b. le a b \<and> le b a) (filter (matches (build_where q)) st))"
proof -
  have v: "conflictQuerySchema q = []" using assms(1) by (simp add: validateRequest_ok)
  have rd: "readable_dates q" by (rule assms(2))
  obtain le where o: "order_le (order_of q) = Some le" using valid_order_le [OF v] by blast
  have tp: "total_preorder le" by (rule order_le_total [OF o])
  obtain resp where r: "get_conflicts st q = Inr resp"
    and cs: "conflicts resp = window q (sort_by le (matching st q))"
    using valid_response [OF v o rd, of st] by blast
  have c: "conflicts resp =
       take (nat (limit_of q)) (drop (nat ((page_of q - 1) * limit_of q))
         (sort_by le (filter (matches (build_where q)) st)))"
    using cs by (simp add: window_def matching_def)
  have m: "mset (sort_by le (filter (matches (build_where q)) st)) =
       mset (filter (matches (build_where q)) st)"
    by (rule mset_sort_by)
  have s: "sorted_wrt le (sort_by le (filter (matches (build_where q)) st))"
    by (rule sorted_sort_by [OF tp])
  have t: "\<forall>a. filter (\<lambda>b. le a b \<and> le b a) (sort_by le (filter (matches (build_where q)) st)) =
          filter (\<lambda>b. le a b \<and> le b a) (filter (matches (build_where q)) st)"
    using sort_by_stable [OF tp] by blast
  show ?thesis using r o c m s t by blast
qed

theorem list_order_witness:
  "validateRequest conflictQuerySchema top_three_query = Inr () \<and>
   readable_dates top_three_query \<and>
   map id_c seed_store = [''c1'', ''c2'', ''c3'', ''c4''] \<and>
   map fatalities seed_store = [Some 23, Some 15, Some 34, Some 27] \<and>
   (\<exists>resp le. get_conflicts seed_store top_three_query = Inr resp \<and>
      order_le (order_of top_three_query) = Some le \<and>
      conflicts resp = take 3 (sort_by le seed_store) \<and>
      sorted_wrt le (conflicts resp) \<and>
      map id_c (conflicts resp) = [''c3'', ''c4'', ''c1''] \<and>
      map fatalities (conflicts resp) = [Some 34, Some 27, Some 23] \<and>
      total_c (pagination resp) = 4 \<and> totalPages (pagination resp) = 2 \<and>
      hasNext (pagination resp))"
proof -
  have h: "validateRequest conflictQuerySchema top_three_query = Inr ()" by code_simp
  have rd: "readable_dates top_three_query" by code_simp
  have i: "map id_c seed_store = [''c1'', ''c2'', ''c3'', ''c4'']" by code_simp
  have f: "map fatalities seed_store = [Some 23, Some 15, Some 34, Some 27]" by code_simp
  have p: "nat (limit_of top_three_query) = 3"
    "nat ((page_of top_three_query - 1) * limit_of top_three_query) = 0"
    by code_simp+
  have w: "filter (matches (build_where top_three_query)) seed_store = seed_store"
    by code_simp
  obtain resp le where r: "get_conflicts seed_store top_three_query = Inr resp"
    and o: "order_le (order_of top_three_query) = Some le"
    and c: "conflicts resp = take 3 (sort_by le seed_store)"
    and s: "sorted_wrt le (sort_by le seed_store)"
    using list_order [OF h rd, of seed_store] unfolding p w by auto
  have s3: "sorted_wrt le (conflicts resp)"
    unfolding c using s by (metis sorted_wrt_take)
  have e: "map_sum id (\<lambda>resp. (map id_c (conflicts resp), map fatalities (conflicts resp),
        total_c (pagination resp), totalPages (pagination resp), hasNext (pagination resp)))
      (get_conflicts seed_store top_three_query) =
     Inr ([''c3'', ''c4'', ''c1''], [Some 34, Some 27, Some 23], 4, 2, True)"
    by code_simp
  have m: "map id_c (conflicts resp) = [''c3'', ''c4'', ''c1'']"
    "map fatalities (conflicts resp) = [Some 34, Some 27, Some 23]"
    "total_c (pagination resp) = 4" "totalPages (pagination resp) = 2"
    "hasNext (pagination resp)"
    using e unfolding r by simp_all
  show ?thesis
    by (intro conjI exI [of _ resp] exI [of _ le])
      (rule h rd i f r o c s3 m)+
qed


lemma number_errors_low:
  "r < of_int lo \<Longrightarrow> number_errors p (Some lo) hi (Some (NumText r)) \<noteq> []"
  by (simp add: number_errors_def)

lemma number_errors_high:
  "of_int hi < r \<Longrightarrow> number_errors p lo (Some hi) (Some (NumText r)) \<noteq> []"
  by (simp add: number_errors_def split: option.splits)

lemma number_errors_fraction:
  "\<not> is_integer r \<Longrightarrow> number_errors p lo hi (Some (NumText r)) \<noteq> []"
  by (simp add: number_errors_def)

lemma number_errors_text: "number_errors p lo hi (Some NotNum) \<noteq> []"
  by (simp add: number_errors_def)

lemma get_conflicts_rejects:
  "conflictQuerySchema q \<noteq> [] \<Longrightarrow> \<exists>d. get_conflicts st q = Inl (BadRequest d)"
  by (simp add: get_conflicts_def validateRequest_bad)

lemma page_rejected:
  assumes "q_page q = Some v" "number_errors ''page'' (Some 1) None (Some v) \<noteq> []"
  shows "\<exists>d. get_conflicts st q = Inl (BadRequest d)"
  using assms by (intro get_conflicts_rejects) (simp add: conflictQuerySchema_def)

lemma limit_rejected:
  assumes "q_limit q = Some v" "number_errors ''limit'' (Some 1) (Some 1000) (Some v) \<noteq> []"
  shows "\<exists>d. get_conflicts st q = Inl (BadRequest d)"
  using assms by (intro get_conflicts_rejects) (simp add: conflictQuerySchema_def)

lemma page_of_reading:
  assumes v: "conflictQuerySchema q = []"
  shows "q_page q = None \<Longrightarrow> page_of q = 1"
    and "q_page q = Some t \<Longrightarrow> t = NumText (of_int (page_of q))"
  using number_errors_ok [OF schema_parts(1) [OF v], of 1]
  by (auto simp: page_of_def)

lemma limit_of_reading:
  assumes v: "conflictQuerySchema q = []"
  shows "q_limit q = None \<Longrightarrow> limit_of q = 10"
    and "q_limit q = Some t \<Longrightarrow> t = NumText (of_int (limit_of q))"
  using number_errors_ok [OF schema_parts(2) [OF v], of 10]
  by (auto simp: limit_of_def)

text \<open>
  C8. A \<^verbatim>\<open>page\<close> below 1, a \<^verbatim>\<open>limit\<close> below 1 or above 1000, and a \<^verbatim>\<open>page\<close> or
  \<^verbatim>\<open>limit\<close> that is not an integer or not a number are refused with status 400; none is
  replaced by a value in range. For a request that passes validation the handler reads
  \<^verbatim>\<open>page\<close> and \<^verbatim>\<open>limit\<close> as the integers asked for, \<^verbatim>\<open>page\<close> at least 1 and \<^verbatim>\<open>limit\<close>
  between 1 and 1000, an absent \<^verbatim>\<open>page\<close> counting as 1 and an absent \<^verbatim>\<open>limit\<close> as 10;
  every page that is answered carries these two integers, and a page is answered
  whenever the handler reads the dates of the request.
\<close>

theorem page_limit_normalised:
  "(\<forall>r. q_page q = Some (NumText r) \<and> r < 1 \<longrightarrow> (\<exists>d. get_conflicts st q = Inl (BadRequest d))) \<and>
   (\<forall>r. q_limit q = Some (NumText r) \<and> (r < 1 \<or> 1000 < r) \<longrightarrow>
      (\<exists>d. get_conflicts st q = Inl (BadRequest d))) \<and>
   (\<forall>r. (q_page q = Some (NumText r) \<or> q_limit q = Some (NumText r)) \<and> \<not> is_integer r \<longrightarrow>
      (\<exists>d. get_conflicts st q = Inl (BadRequest d))) \<and>
   (q_page q = Some NotNum \<or> q_limit q = Some NotNum \<longrightarrow>
      (\<exists>d. get_conflicts st q = Inl (BadRequest d))) \<and>
   (validateRequest conflictQuerySchema q = Inr () \<longrightarrow>
      (\<exists>pg lm. Number_or 1 (q_page q) = Some pg \<and> Number_or 10 (q_limit q) = Some lm \<and>
         (q_page q = None \<longrightarrow> pg = 1) \<and>
         (q_limit q = None \<longrightarrow> lm = 10) \<and>
         (\<forall>t. q_page q = Some t \<longrightarrow> t = NumText (of_int pg)) \<and>
         (\<forall>t. q_limit q = Some t \<longrightarrow> t = NumText (of_int lm)) \<and>
         1 \<le> pg \<and> 1 \<le> lm \<and> lm \<le> 1000 \<and>
         (\<forall>resp. get_conflicts st q = Inr resp \<longrightarrow>
            page (pagination resp) = pg \<and> limit (pagination resp) = lm) \<and>
         (readable_dates q \<longrightarrow> (\<exists>resp. get_conflicts st q = Inr resp))))"
proof (intro conjI allI impI)
  fix r assume "q_page q = Some (NumText r) \<and> r < 1"
  then show "\<exists>d. get_conflicts st q = Inl (BadRequest d)"
    using page_rejected [of q "NumText r"] number_errors_low [of r 1] by simp
next
  fix r assume "q_limit q = Some (NumText r) \<and> (r < 1 \<or> 1000 < r)"
  then show "\<exists>d. get_conflicts st q = Inl (BadRequest d)"
    using limit_rejected [of q "NumText r"] number_errors_low [of r 1]
      number_errors_high [of 1000 r] by auto
next
  fix r assume "(q_page q = Some (NumText r) \<or> q_limit q = Some (NumText r)) \<and> \<not> is_integer r"
  then show "\<exists>d. get_conflicts st q = Inl (BadRequest d)"
    using page_rejected [of q "NumText r"] limit_rejected [of q "NumText r"]
      number_errors_fraction [of r] by blast
next
  assume "q_page q = Some NotNum \<or> q_limit q = Some NotNum"
  then show "\<exists>d. get_conflicts st q = Inl (BadRequest d)"
    using page_rejected [of q NotNum] limit_rejected [of q NotNum] number_errors_text by blast
next
  assume ok: "validateRequest conflictQuerySchema q = Inr ()"
  have v: "conflictQuerySchema q = []" using ok by (simp add: validateRequest_ok)
  obtain le where o: "order_le (order_of q) = Some le" using valid_order_le [OF v] by blast
  have n1: "Number_or 1 (q_page q) = Some (page_of q)" by (rule valid_page(1) [OF v])
  have n2: "Number_or 10 (q_limit q) = Some (limit_of q)" by (rule valid_limit(1) [OF v])
  have a1: "q_page q = None \<longrightarrow> page_of q = 1"
    using page_of_reading(1) [OF v] by blast
  have a2: "q_limit q = None \<longrightarrow> limit_of q = 10"
    using limit_of_reading(1) [OF v] by blast
  have a3: "\<forall>t. q_page q = Some t \<longrightarrow> t = NumText (of_int (page_of q))"
    using page_of_reading(2) [OF v] by blast
  have a4: "\<forall>t. q_limit q = Some t \<longrightarrow> t = NumText (of_int (limit_of q))"
    using limit_of_reading(2) [OF v] by blast
  have a5: "1 \<le> page_of q" by (rule valid_page(2) [OF v])
  have a6: "1 \<le> limit_of q" by (rule valid_limit(2) [OF v])
  have a7: "limit_of q \<le> 1000" by (rule valid_limit(3) [OF v])
  have a8: "\<forall>resp. get_conflicts st q = Inr resp \<longrightarrow>
            page (pagination resp) = page_of q \<and> limit (pagination resp) = limit_of q"
  proof (intro allI impI)
    fix resp assume r: "get_conflicts st q = Inr resp"
    have rd: "readable_dates q" by (rule get_conflicts_page(2) [OF r])
    obtain resp' where r': "get_conflicts st q = Inr resp'"
      and pg: "page (pagination resp') = page_of q"
      and lm: "limit (pagination resp') = limit_of q"
      using valid_response [OF v o rd, of st] by blast
    have "resp' = resp" using r r' by simp
    then show "page (pagination resp) = page_of q \<and> limit (pagination resp) = limit_of q"
      using pg lm by simp
  qed
  have a9: "readable_dates q \<longrightarrow> (\<exists>resp. get_conflicts st q = Inr resp)"
  proof
    assume rd: "readable_dates q"
    obtain resp where "get_conflicts st q = Inr resp"
      using valid_response [OF v o rd, of st] by blast
    then show "\<exists>resp. get_conflicts st q = Inr resp" by (rule exI)
  qed
  show "\<exists>pg lm. Number_or 1 (q_page q) = Some pg \<and> Number_or 10 (q_limit q) = Some lm \<and>
         (q_page q = None \<longrightarrow> pg = 1) \<and>
         (q_limit q = None \<longrightarrow> lm = 10) \<and>
         (\<forall>t. q_page q = Some t \<longrightarrow> t = NumText (of_int pg)) \<and>
         (\<forall>t. q_limit q = Some t \<longrightarrow> t = NumText (of_int lm)) \<and>
         1 \<le> pg \<and> 1 \<le> lm \<and> lm \<le> 1000 \<and>
         (\<forall>resp. get_conflicts st q = Inr resp \<longrightarrow>
            page (pagination resp) = pg \<and> limit (pagination resp) = lm) \<and>
         (readable_dates q \<longrightarrow> (\<exists>resp. get_conflicts st q = Inr resp))"
    by (intro exI [of _ "page_of q"] exI [of _ "limit_of q"] conjI)
      (rule n1 n2 a1 a2 a3 a4 a5 a6 a7 a8 a9)+
qed

theorem page_limit_normalised_witness:
  "q_page two_errors_query = Some (NumText 0) \<and> (0::rat) < 1 \<and>
   (\<exists>d. get_conflicts seed_store two_errors_query = Inl (BadRequest d)) \<and>
   q_limit two_errors_query = Some (NumText 5000) \<and> (1000::rat) < 5000 \<and>
   \<not> is_integer (5 / 2) \<and>
   (\<exists>d. get_conflicts seed_store (no_params\<lparr>q_limit := Some (NumText (5 / 2))\<rparr>) =
      Inl (BadRequest d)) \<and>
   (\<exists>d. get_conflicts seed_store (no_params\<lparr>q_page := Some NotNum\<rparr>) = Inl (BadRequest d)) \<and>
   validateRequest conflictQuerySchema no_params = Inr () \<and>
   q_page no_params = None \<and> q_limit no_params = None \<and> readable_dates no_params \<and>
   Number_or 1 (q_page no_params) = Some 1 \<and> Number_or 10 (q_limit no_params) = Some 10 \<and>
   (\<exists>resp. get_conflicts seed_store no_params = Inr resp \<and>
      page (pagination resp) = 1 \<and> limit (pagination resp) = 10) \<and>
   validateRequest conflictQuerySchema far_page_query = Inr () \<and>
   q_page far_page_query = Some (NumText 3) \<and> q_limit far_page_query = Some (NumText 2) \<and>
   readable_dates far_page_query \<and>
   (\<exists>resp. get_conflicts seed_store far_page_query = Inr resp \<and>
      page (pagination resp) = 3 \<and> limit (pagination resp) = 2)"
proof -
  have a: "q_page two_errors_query = Some (NumText 0) \<and> (0::rat) < 1"
    by (simp add: two_errors_query_def no_params_def)
  have b1: "q_limit two_errors_query = Some (NumText 5000)"
    by (simp add: two_errors_query_def no_params_def)
  have b2: "(1000::rat) < 5000" by simp
  have b: "q_limit two_errors_query = Some (NumText 5000) \<and> ((5000::rat) < 1 \<or> (1000::rat) < 5000)"
    using b1 by simp
  have f: "\<not> is_integer (5 / 2)" by code_simp
  have f': "(q_page (no_params\<lparr>q_limit := Some (NumText (5 / 2))\<rparr>) = Some (NumText (5 / 2)) \<or>
      q_limit (no_params\<lparr>q_limit := Some (NumText (5 / 2))\<rparr>) = Some (NumText (5 / 2))) \<and>
      \<not> is_integer (5 / 2)"
    using f by simp
  have t: "q_page (no_params\<lparr>q_page := Some NotNum\<rparr>) = Some NotNum \<or>
      q_limit (no_params\<lparr>q_page := Some NotNum\<rparr>) = Some NotNum"
    by simp
  have h: "validateRequest conflictQuerySchema no_params = Inr ()" by code_simp
  have n1: "q_page no_params = None" by (simp add: no_params_def)
  have n2: "q_limit no_params = None" by (simp add: no_params_def)
  have n3: "readable_dates no_params" by code_simp
  have low: "\<exists>d. get_conflicts seed_store two_errors_query = Inl (BadRequest d)"
    by (rule page_limit_normalised [of two_errors_query seed_store, THEN conjunct1,
          rule_format, of 0]) (rule a)
  have high: "\<exists>d. get_conflicts seed_store two_errors_query = Inl (BadRequest d)"
    by (rule page_limit_normalised [of two_errors_query seed_store, THEN conjunct2,
          THEN conjunct1, rule_format, of 5000]) (rule b)
  have frac: "\<exists>d. get_conflicts seed_store (no_params\<lparr>q_limit := Some (NumText (5 / 2))\<rparr>) =
      Inl (BadRequest d)"
    by (rule page_limit_normalised [of "no_params\<lparr>q_limit := Some (NumText (5 / 2))\<rparr>"
          seed_store, THEN conjunct2, THEN conjunct2, THEN conjunct1, rule_format, of "5 / 2"])
      (rule f')
  have nonum: "\<exists>d. get_conflicts seed_store (no_params\<lparr>q_page := Some NotNum\<rparr>) =
      Inl (BadRequest d)"
    by (rule page_limit_normalised [of "no_params\<lparr>q_page := Some NotNum\<rparr>" seed_store,
          THEN conjunct2, THEN conjunct2, THEN conjunct2, THEN conjunct1, rule_format])
      (rule t)
  note valid = page_limit_normalised [of no_params seed_store, THEN conjunct2, THEN conjunct2,
          THEN conjunct2, THEN conjunct2, rule_format, OF h]
  obtain pg lm where c1: "Number_or 1 (q_page no_params) = Some pg"
      and c2: "Number_or 10 (q_limit no_params) = Some lm"
      and p: "q_page no_params = None \<longrightarrow> pg = 1"
      and l: "q_limit no_params = None \<longrightarrow> lm = 10"
      and pl: "\<forall>resp. get_conflicts seed_store no_params = Inr resp \<longrightarrow>
            page (pagination resp) = pg \<and> limit (pagination resp) = lm"
      and ex: "readable_dates no_params \<longrightarrow> (\<exists>resp. get_conflicts seed_store no_params = Inr resp)"
    using valid by (elim exE conjE)
  have p1: "pg = 1" using p n1 by simp
  have l1: "lm = 10" using l n2 by simp
  have m1: "Number_or 1 (q_page no_params) = Some 1" using c1 p1 by simp
  have m2: "Number_or 10 (q_limit no_params) = Some 10" using c2 l1 by simp
  obtain resp where r: "get_conflicts seed_store no_params = Inr resp"
    using ex n3 by blast
  have rp: "page (pagination resp) = 1" using pl r p1 by simp
  have rl: "limit (pagination resp) = 10" using pl r l1 by simp
  have good: "\<exists>resp. get_conflicts seed_store no_params = Inr resp \<and>
      page (pagination resp) = 1 \<and> limit (pagination resp) = 10"
    by (intro exI [of _ resp] conjI) (rule r rp rl)+
  have h2: "validateRequest conflictQuerySchema far_page_query = Inr ()" by code_simp
  have g1: "q_page far_page_query = Some (NumText 3)"
    by (simp add: far_page_query_def no_params_def)
  have g2: "q_limit far_page_query = Some (NumText 2)"
    by (simp add: far_page_query_def no_params_def)
  have g3: "readable_dates far_page_query" by code_simp
  note valid2 = page_limit_normalised [of far_page_query seed_store, THEN conjunct2,
          THEN conjunct2, THEN conjunct2, THEN conjunct2, rule_format, OF h2]
  obtain pg2 lm2 where
          p2: "\<forall>t. q_page far_page_query = Some t \<longrightarrow> t = NumText (of_int pg2)"
      and l2: "\<forall>t. q_limit far_page_query = Some t \<longrightarrow> t = NumText (of_int lm2)"
      and pl2: "\<forall>resp. get_conflicts seed_store far_page_query = Inr resp \<longrightarrow>
            page (pagination resp) = pg2 \<and> limit (pagination resp) = lm2"
      and ex2: "readable_dates far_page_query \<longrightarrow>
            (\<exists>resp. get_conflicts seed_store far_page_query = Inr resp)"
    using valid2 by (elim exE conjE)
  have "rat_of_int pg2 = rat_of_int 3" using p2 g1 by simp
  then have p3: "pg2 = 3" by (simp only: of_int_eq_iff)
  have "rat_of_int lm2 = rat_of_int 2" using l2 g2 by simp
  then have l3: "lm2 = 2" by (simp only: of_int_eq_iff)
  obtain resp2 where r2: "get_conflicts seed_store far_page_query = Inr resp2"
    using ex2 g3 by blast
  have rp2: "page (pagination resp2) = 3" using pl2 r2 p3 by simp
  have rl2: "limit (pagination resp2) = 2" using pl2 r2 l3 by simp
  have good2: "\<exists>resp. get_conflicts seed_store far_page_query = Inr resp \<and>
      page (pagination resp) = 3 \<and> limit (pagination resp) = 2"
    by (intro exI [of _ resp2] conjI) (rule r2 rp2 rl2)+
  show ?thesis
    by (intro conjI)
      (rule a [THEN conjunct1] a [THEN conjunct2] low b1 b2 f frac nonum h n1 n2 n3 m1 m2 good
        h2 g1 g2 g3 good2)+
qed


text \<open>
  A date range whose end is before its start, both dates read by the validator and by
  the handler, leaves a valid request valid and selects no row: the answer is an empty
  page with \<^verbatim>\<open>total\<close> 0.
\<close>

lemma dates_keep_valid:
  assumes v: "conflictQuerySchema q = []" and "joi_date ds \<noteq> None" "joi_date de \<noteq> None"
  shows "conflictQuerySchema (q\<lparr>q_startDate := Some ds, q_endDate := Some de\<rparr>) = []"
  using schema_parts [OF v] assms(2,3) by (simp add: conflictQuerySchema_def date_errors_def)

lemma reversed_matches_nothing:
  assumes "new_Date ds = Some s" "new_Date de = Some e" "e < s"
  shows "matching st (q\<lparr>q_startDate := Some ds, q_endDate := Some de\<rparr>) = []"
proof -
  have "\<not> holds_date (Some \<lparr>gte = Some s, lte = Some e\<rparr>) d" for d
    using assms(3) by (simp add: holds_date_def)
  then have "\<not> matches (build_where (q\<lparr>q_startDate := Some ds, q_endDate := Some de\<rparr>)) r" for r
    using assms(1,2) by (simp add: matches_def build_where_def date_bound_def)
  then show ?thesis by (simp add: matching_def)
qed

lemma reversed_readable_range:
  assumes "validateRequest conflictQuerySchema q = Inr ()"
    and "joi_date ds \<noteq> None" "joi_date de \<noteq> None"
    and "new_Date ds = Some s" "new_Date de = Some e" "e < s"
  shows "validateRequest conflictQuerySchema
           (q\<lparr>q_startDate := Some ds, q_endDate := Some de\<rparr>) = Inr () \<and>
         (\<exists>resp. get_conflicts st (q\<lparr>q_startDate := Some ds, q_endDate := Some de\<rparr>) = Inr resp \<and>
            total_c (pagination resp) = 0 \<and> conflicts resp = [])"
proof -
  define q' where "q' = q\<lparr>q_startDate := Some ds, q_endDate := Some de\<rparr>"
  have v: "conflictQuerySchema q = []" using assms(1) by (simp add: validateRequest_ok)
  have v': "conflictQuerySchema q' = []"
    unfolding q'_def by (rule dates_keep_valid [OF v assms(2,3)])
  have ok: "validateRequest conflictQuerySchema q' = Inr ()"
    using v' by (simp add: validateRequest_ok)
  have rd: "readable_dates q'"
    using assms(4,5) by (simp add: q'_def readable_dates_def invalid_Date_def)
  have none: "matching st q' = []"
    unfolding q'_def by (rule reversed_matches_nothing [OF assms(4,5,6)])
  obtain le where o: "order_le (order_of q') = Some le" using valid_order_le [OF v'] by blast
  obtain resp where r: "get_conflicts st q' = Inr resp"
    and cs: "conflicts resp = window q' (sort_by le (matching st q'))"
    and tt: "total_c (pagination resp) = int (length (matching st q'))"
    using valid_response [OF v' o rd, of st] by blast
  have t0: "total_c (pagination resp) = 0" using tt none by simp
  have c0: "conflicts resp = []" using cs none by (simp add: window_def sort_by_Nil)
  show ?thesis using ok r t0 c0 unfolding q'_def by blast
qed

lemma reversed_iso_dates_example:
  "validateRequest conflictQuerySchema reversed_dates_query = Inr () \<and>
   map_sum id (\<lambda>resp. (conflicts resp, total_c (pagination resp)))
     (get_conflicts seed_store reversed_dates_query) = Inr ([], 0)"
  by code_simp

text \<open>
  C9. A start date 1 January 2024 and an end date 1 January 2023, both written as
  digits (milliseconds): the validator reads both as dates and lets the request pass,
  the end is before the start, and the handler, reading the raw text again, gets Invalid
  Date and answers 500 where the specification asks for an empty page with \<^verbatim>\<open>total\<close> 0.
\<close>

theorem reversed_digit_dates_fail:
  "validateRequest conflictQuerySchema reversed_digits_query = Inr () \<and>
   map_option joi_date (q_startDate reversed_digits_query) = Some (Some 1704067200000) \<and>
   map_option joi_date (q_endDate reversed_digits_query) = Some (Some 1672531200000) \<and>
   toISOString 1704067200000 = ''2024-01-01T00:00:00.000Z'' \<and>
   toISOString 1672531200000 = ''2023-01-01T00:00:00.000Z'' \<and>
   map_option new_Date (q_startDate reversed_digits_query) = Some None \<and>
   get_conflicts seed_store reversed_digits_query = Inl InternalError"
proof (intro conjI)
  show "validateRequest conflictQuerySchema reversed_digits_query = Inr ()" by code_simp
  show "map_option joi_date (q_startDate reversed_digits_query) = Some (Some 1704067200000)"
    by code_simp
  show "map_option joi_date (q_endDate reversed_digits_query) = Some (Some 1672531200000)"
    by code_simp
  show "toISOString 1704067200000 = ''2024-01-01T00:00:00.000Z''" by code_simp
  show "toISOString 1672531200000 = ''2023-01-01T00:00:00.000Z''" by code_simp
  show "map_option new_Date (q_startDate reversed_digits_query) = Some None" by code_simp
  show "get_conflicts seed_store reversed_digits_query = Inl InternalError" by code_simp
qed

text \<open>
  C4. A request with \<^verbatim>\<open>page=0\<close> and \<^verbatim>\<open>limit=5000\<close> violates the schema twice, but the
  middleware calls \<^verbatim>\<open>validate\<close> with its default options, which stop at the first
  violation: the 400 answer names \<^verbatim>\<open>page\<close> only.
\<close>

theorem validation_stops_at_first_error:
  "map path (conflictQuerySchema two_errors_query) = [''page'', ''limit''] \<and>
   map path (validate True conflictQuerySchema two_errors_query) = [''page''] \<and>
   validateRequest conflictQuerySchema two_errors_query =
     Inl (BadRequest [''Query: '' @ [dquote] @ ''page'' @ [dquote] @
        '' must be greater than or equal to 1''])"
  by code_simp



section \<open>Properties of the export\<close>

lemma toISOString_examples:
  "toISOString 0 = ''1970-01-01T00:00:00.000Z''"
  "toISOString 1709210096789 = ''2024-02-29T12:34:56.789Z''"
  "toISOString (- 1) = ''1969-12-31T23:59:59.999Z''"
  "toISOString 951868800000 = ''2000-03-01T00:00:00.000Z''"
  "toISOString (- 2203891200000) = ''1900-03-01T00:00:00.000Z''"
  "toISOString 253402300799999 = ''9999-12-31T23:59:59.999Z''"
  "toISOString (- 62167219200000) = ''0000-01-01T00:00:00.000Z''"
  "toISOString 8640000000000000 = ''+275760-09-13T00:00:00.000Z''"
  "toISOString (- 8640000000000000) = ''-271821-04-20T00:00:00.000Z''"
  by code_simp+

lemma is_digit_char_of: "is_digit (digit_char (n mod 10))"
  by (simp add: is_digit_def digit_char_def)

lemma pad_digits_digit: "c \<in> set (pad_digits w n) \<Longrightarrow> is_digit c"
  by (induction w arbitrary: n) (auto simp: is_digit_char_of)

lemma length_pad_digits: "length (pad_digits w n) = w"
  by (induction w arbitrary: n) simp_all

lemma has_shape_append:
  "has_shape p1 s1 \<Longrightarrow> has_shape p2 s2 \<Longrightarrow> has_shape (p1 @ p2) (s1 @ s2)"
  by (induction p1 s1 rule: has_shape.induct) simp_all

lemma has_shape_pad: "has_shape (replicate w (CHR ''D'')) (pad_digits w n)"
proof (induction w arbitrary: n)
  case 0
  then show ?case by simp
next
  case (Suc w)
  have "has_shape (replicate w (CHR ''D'') @ [CHR ''D''])
      (pad_digits w (n div 10) @ [digit_char (n mod 10)])"
    by (rule has_shape_append [OF Suc]) (simp add: is_digit_char_of)
  then show ?case by (simp add: replicate_append_same)
qed

lemma has_shape_dash: "has_shape ''-'' ''-''"
  by simp

lemma has_shape_pad2: "has_shape ''DD'' (pad_digits 2 n)"
proof -
  have e: "(2::nat) = Suc (Suc 0)" by simp
  show ?thesis
    unfolding e using has_shape_pad [of "Suc (Suc 0)" n] by (simp only: replicate.simps)
qed

lemma has_shape_pad4: "has_shape ''DDDD'' (pad_digits 4 n)"
proof -
  have e: "(4::nat) = Suc (Suc (Suc (Suc 0)))" by simp
  show ?thesis
    unfolding e using has_shape_pad [of "Suc (Suc (Suc (Suc 0)))" n]
    by (simp only: replicate.simps)
qed

lemma has_shape_month_day:
  "has_shape ''-DD-DD'' (''-'' @ pad_digits 2 m @ ''-'' @ pad_digits 2 d)"
  using has_shape_append [OF has_shape_dash has_shape_append [OF has_shape_pad2 [of m]
        has_shape_append [OF has_shape_dash has_shape_pad2 [of d]]]]
  by simp

lemma iso_date_parts:
  "\<exists>m d. iso_date t = year_text (year_of t) @ ''-'' @ pad_digits 2 m @ ''-'' @ pad_digits 2 d"
  by (auto simp: iso_date_def year_of_def split: prod.splits)

lemma T_notin_show_digits: "0 \<le> n \<Longrightarrow> CHR ''T'' \<notin> set (show_digits n)"
proof (induction n rule: show_digits.induct)
  case (1 n)
  have d: "digit_char k \<noteq> CHR ''T''" if "0 \<le> k" "k < 10" for k
  proof -
    have "is_digit (digit_char (k mod 10))" by (rule is_digit_char_of)
    then have "is_digit (digit_char k)" using that by simp
    then show ?thesis by (auto simp: is_digit_def)
  qed
  show ?case
  proof (cases "n < 10")
    case True
    have "show_digits n = [digit_char n]"
      using True by (subst show_digits.simps) simp
    then show ?thesis using d [of n] True "1.prems" by simp
  next
    case False
    have e: "show_digits n = show_digits (n div 10) @ [digit_char (n mod 10)]"
      using False by (subst show_digits.simps) simp
    have "0 \<le> n div 10" using "1.prems" by simp
    then have "CHR ''T'' \<notin> set (show_digits (n div 10))" using "1.IH" False by simp
    then show ?thesis using d [of "n mod 10"] unfolding e by simp
  qed
qed

lemma iso_date_shape:
  assumes "0 \<le> year_of t" "year_of t \<le> 9999"
  shows "has_shape ''DDDD-DD-DD'' (iso_date t)"
proof -
  obtain m d where e: "iso_date t = year_text (year_of t) @ ''-'' @ pad_digits 2 m @ ''-'' @ pad_digits 2 d"
    using iso_date_parts by blast
  have md: "has_shape ''-DD-DD'' (''-'' @ pad_digits 2 m @ ''-'' @ pad_digits 2 d)"
    by (rule has_shape_month_day)
  have y: "has_shape ''DDDD'' (year_text (year_of t))"
    using assms by (simp add: year_text_def has_shape_pad4)
  have "has_shape (''DDDD'' @ ''-DD-DD'')
     (year_text (year_of t) @ ''-'' @ pad_digits 2 m @ ''-'' @ pad_digits 2 d)"
    by (rule has_shape_append [OF y md])
  then show ?thesis unfolding e by simp
qed

lemma T_not_digit: "\<not> is_digit (CHR ''T'')"
  by (simp add: is_digit_def)

lemma T_notin_pad: "CHR ''T'' \<notin> set (pad_digits w n)"
  using pad_digits_digit T_not_digit by blast

lemma T_notin_iso_date: "CHR ''T'' \<notin> set (iso_date t)"
proof -
  obtain m d where e: "iso_date t = year_text (year_of t) @ ''-'' @ pad_digits 2 m @ ''-'' @ pad_digits 2 d"
    using iso_date_parts by blast
  have "CHR ''T'' \<notin> set (year_text (year_of t))"
    by (simp add: year_text_def T_notin_pad T_notin_show_digits)
  then show ?thesis unfolding e by (simp add: T_notin_pad)
qed

lemma split_first: "c \<notin> set p \<Longrightarrow> split c (p @ c # rest) = p # split c rest"
  by (induction p) auto

lemma date_cell_valid: "date_cell (Valid_Date t) = Inr (iso_date t)"
  using split_first [OF T_notin_iso_date, of t "iso_time t @ ''Z''"]
  by (simp add: date_cell_def date_toISOString_def toISOString_def)

lemma date_cell_invalid: "date_cell Invalid_Date = Inl InternalError"
  by (simp add: date_cell_def date_toISOString_def)

lemma undouble_double: "undouble (double_quotes t) = t"
proof (induction t)
  case Nil
  then show ?case by (simp add: double_quotes_def)
next
  case (Cons c cs)
  show ?case
  proof (cases "c = dquote")
    case True
    then show ?thesis using Cons by (simp add: double_quotes_def)
  next
    case False
    have "undouble (c # double_quotes cs) = c # undouble (double_quotes cs)"
      using False by (cases "double_quotes cs") simp_all
    then show ?thesis using False Cons by (simp add: double_quotes_def)
  qed
qed

lemma unescape_title_cell: "unescape_field (title_cell t) = Some t"
  by (simp add: unescape_field_def title_cell_def undouble_double)

lemma all_rows_match: "filter (matches no_filter) st = st"
  by (simp add: matches_no_filter)

lemma export_rows:
  "findAll st no_filter (''date'', ''desc'') = Inr (sort_by (\<lambda>a b. date b \<le> date a) st)"
  by (simp add: findAll_def order_date_desc all_rows_match)

lemma csvHeaders_text:
  "csvHeaders = ''ID,Title,Country,Region,Event Type,Date,Fatalities,Latitude,Longitude,Source''"
  by (simp add: csvHeaders_def)

text \<open>
  The row of a record whose date the client delivers: the ten cells in the order of the
  header, joined by commas, the Date cell being the ISO timestamp up to the \<^verbatim>\<open>T\<close>, of
  the form \<^verbatim>\<open>YYYY-MM-DD\<close>.
\<close>

lemma csv_row_text:
  assumes "0 \<le> year_of (date c)" "year_of (date c) \<le> 9999"
  shows "csv_row num c =
     Inr (id_c c @ '','' @ title_cell (title c) @ '','' @ country c @ '','' @ region c @ '','' @
       eventType c @ '','' @ iso_date (date c) @ '','' @ fatalities_cell (fatalities c) @ '','' @
       num (latitude c) @ '','' @ num (longitude c) @ '','' @ source c)"
    and "toISOString (date c) = iso_date (date c) @ ''T'' @ iso_time (date c) @ ''Z''"
    and "has_shape ''DDDD-DD-DD'' (iso_date (date c))"
proof -
  have "client_date (date c) = Valid_Date (date c)" using assms by (simp add: client_date_def)
  then show "csv_row num c =
     Inr (id_c c @ '','' @ title_cell (title c) @ '','' @ country c @ '','' @ region c @ '','' @
       eventType c @ '','' @ iso_date (date c) @ '','' @ fatalities_cell (fatalities c) @ '','' @
       num (latitude c) @ '','' @ num (longitude c) @ '','' @ source c)"
    by (simp add: csv_row_def date_cell_valid)
  show "toISOString (date c) = iso_date (date c) @ ''T'' @ iso_time (date c) @ ''Z''"
    by (simp add: toISOString_def)
  show "has_shape ''DDDD-DD-DD'' (iso_date (date c))" by (rule iso_date_shape [OF assms])
qed

lemma csv_row_fails:
  "csv_row num c = Inl e \<longleftrightarrow> e = InternalError \<and> \<not> (0 \<le> year_of (date c) \<and> year_of (date c) \<le> 9999)"
  by (auto simp: csv_row_def client_date_def date_cell_valid date_cell_invalid)

lemma show_int_0: "show_int 0 = ''0''"
  by code_simp

lemma fatalities_cell_text:
  "fatalities_cell None = ''0''" "fatalities_cell (Some n) = show_int n"
  by (simp_all add: fatalities_cell_def or_zero_def show_int_0)

lemma title_cell_text: "title_cell t = [dquote] @ double_quotes t @ [dquote]"
  by (simp add: title_cell_def)

lemma map_rows_ok:
  "(\<And>x. x \<in> set xs \<Longrightarrow> f x = Inr (g x)) \<Longrightarrow> map_rows f xs = Inr (map g xs)"
  by (induction xs) simp_all

lemma map_rows_fails:
  assumes "x \<in> set xs" "f x = Inl e" "\<And>y e'. f y = Inl e' \<Longrightarrow> e' = e"
  shows "map_rows f xs = Inl e"
  using assms(1)
proof (induction xs)
  case Nil
  then show ?case by simp
next
  case (Cons a xs)
  show ?case
  proof (cases "f a")
    case (Inl e')
    then show ?thesis using assms(3) [OF Inl] by simp
  next
    case (Inr y)
    then have "a \<noteq> x" using assms(2) by auto
    then have "x \<in> set xs" using Cons.prems by simp
    then have "map_rows f xs = Inl e" by (rule Cons.IH)
    then show ?thesis using Inr by simp
  qed
qed

text \<open>
  The CSV export of a store all of whose dates the client delivers is the header line
  followed by one row for each record, newest first. When the store holds a record
  whose date arrives as Invalid Date, the export fails and the route answers 500.
\<close>

lemma export_csv:
  assumes "\<And>c. c \<in> set st \<Longrightarrow> 0 \<le> year_of (date c) \<and> year_of (date c) \<le> 9999"
  shows "export_conflicts num st now (Some ''csv'') =
     Inr (Csv (csvHeaders @ newline @
       join newline (map (\<lambda>c. projr (csv_row num c)) (sort_by (\<lambda>a b. date b \<le> date a) st))))"
proof -
  have r: "csv_row num c = Inr (projr (csv_row num c))"
    if "c \<in> set (sort_by (\<lambda>a b. date b \<le> date a) st)" for c
  proof -
    have "c \<in> set st" using that by (simp add: set_sort_by)
    then have "0 \<le> year_of (date c)" "year_of (date c) \<le> 9999" using assms by blast+
    then show ?thesis using csv_row_text(1) [of c num] by simp
  qed
  have "map_rows (csv_row num) (sort_by (\<lambda>a b. date b \<le> date a) st) =
      Inr (map (\<lambda>c. projr (csv_row num c)) (sort_by (\<lambda>a b. date b \<le> date a) st))"
    by (rule map_rows_ok) (rule r)
  then show ?thesis
    by (simp add: export_conflicts_def export_rows String_or_def Let_def)
qed

lemma export_csv_fails:
  assumes "c \<in> set st" "\<not> (0 \<le> year_of (date c) \<and> year_of (date c) \<le> 9999)"
  shows "export_conflicts num st now (Some ''csv'') = Inl InternalError"
proof -
  have m: "c \<in> set (sort_by (\<lambda>a b. date b \<le> date a) st)"
    using assms(1) by (simp add: set_sort_by)
  have f: "csv_row num c = Inl InternalError" using assms(2) by (simp add: csv_row_fails)
  have "map_rows (csv_row num) (sort_by (\<lambda>a b. date b \<le> date a) st) = Inl InternalError"
    by (rule map_rows_fails [of c _ "csv_row num" InternalError, OF m f])
      (simp add: csv_row_fails)
  then show ?thesis
    by (simp add: export_conflicts_def export_rows String_or_def)
qed

lemma csv_row_example:
  "csv_row sample_num quoted_title_row =
     Inr (''c7,'' @ [dquote] @ ''The '' @ [dquote, dquote] @ ''Green Line'' @ [dquote, dquote] @
       '' clashes'' @ [dquote] @ '',Syria,Middle East,Battles,2024-02-29,0,0,0,ACLED'') \<and>
   unescape_field (title_cell (title quoted_title_row)) = Some (title quoted_title_row) \<and>
   dquote \<in> set (title quoted_title_row)"
  by code_simp

text \<open>
  C5. A record dated 1 January 10000, one millisecond after the last instant of the year
  9999: the client delivers its date as Invalid Date, \<^verbatim>\<open>toISOString\<close> throws, and no row
  is rendered for the record. The CSV export of a store that holds the record is
  answered with status 500, where the specification asks for one row for every record.
\<close>

theorem csv_export_fails_on_far_date:
  "date far_future_row = 253402300800000 \<and>
   toISOString (253402300800000 - 1) = ''9999-12-31T23:59:59.999Z'' \<and>
   year_of (date far_future_row) = 10000 \<and>
   client_date (date far_future_row) = Invalid_Date \<and>
   date_cell (client_date (date far_future_row)) = Inl InternalError \<and>
   csv_row sample_num far_future_row = Inl InternalError \<and>
   export_conflicts sample_num (seed_store @ [far_future_row]) 1709210096789 (Some ''csv'') =
     Inl InternalError \<and>
   isl (export_conflicts sample_num seed_store 1709210096789 (Some ''csv'')) = False"
proof (intro conjI)
  show "date far_future_row = 253402300800000" by code_simp
  show "toISOString (253402300800000 - 1) = ''9999-12-31T23:59:59.999Z''" by code_simp
  show "year_of (date far_future_row) = 10000" by code_simp
  show "client_date (date far_future_row) = Invalid_Date" by code_simp
  show "date_cell (client_date (date far_future_row)) = Inl InternalError" by code_simp
  show "csv_row sample_num far_future_row = Inl InternalError" by code_simp
  show "export_conflicts sample_num (seed_store @ [far_future_row]) 1709210096789 (Some ''csv'') =
     Inl InternalError" by code_simp
  show "isl (export_conflicts sample_num seed_store 1709210096789 (Some ''csv'')) = False"
    by code_simp
qed

text \<open>
  C10. For every \<^verbatim>\<open>format\<close> other than the text \<^verbatim>\<open>csv\<close>, absent or not, the export
  answers with the JSON document of the export time, the number of records and all
  records of the store, newest first; no value of \<^verbatim>\<open>format\<close> is refused.
\<close>

theorem export_defaults_to_json:
  assumes "format \<noteq> Some ''csv''"
  shows "export_conflicts num st now format =
     Inr (Json \<lparr>exportDate = toISOString now, totalRecords = length st,
               data = sort_by (\<lambda>a b. date b \<le> date a) st\<rparr>) \<and>
     mset (sort_by (\<lambda>a b. date b \<le> date a) st) = mset st \<and>
     sorted_wrt (\<lambda>a b. date b \<le> date a) (sort_by (\<lambda>a b. date b \<le> date a) st)"
proof (intro conjI)
  have f: "String_or ''json'' format \<noteq> ''csv''"
    using assms by (cases format) (simp_all add: String_or_def)
  show "export_conflicts num st now format =
     Inr (Json \<lparr>exportDate = toISOString now, totalRecords = length st,
               data = sort_by (\<lambda>a b. date b \<le> date a) st\<rparr>)"
    using f by (simp add: export_conflicts_def export_rows length_sort_by)
  show "mset (sort_by (\<lambda>a b. date b \<le> date a) st) = mset st"
    by (rule mset_sort_by)
  show "sorted_wrt (\<lambda>a b. date b \<le> date a) (sort_by (\<lambda>a b. date b \<le> date a) st)"
    by (rule sorted_sort_by [OF total_preorder_flip [OF total_preorder_key [of date]]])
qed

theorem export_defaults_to_json_witness:
  "Some ''xml'' \<noteq> Some ''csv'' \<and> None \<noteq> Some ''csv'' \<and>
   export_conflicts sample_num seed_store 1709210096789 (Some ''xml'') =
     Inr (Json \<lparr>exportDate = ''2024-02-29T12:34:56.789Z'', totalRecords = 4,
               data = rev seed_store\<rparr>) \<and>
   export_conflicts sample_num seed_store 1709210096789 None =
     Inr (Json \<lparr>exportDate = ''2024-02-29T12:34:56.789Z'', totalRecords = 4,
               data = rev seed_store\<rparr>)"
proof -
  have x: "Some ''xml'' \<noteq> Some ''csv''" by simp
  have n: "None \<noteq> Some ''csv''" by simp
  have d: "toISOString 1709210096789 = ''2024-02-29T12:34:56.789Z''" by code_simp
  have l: "length seed_store = 4" by code_simp
  have s: "sort_by (\<lambda>a b. date b \<le> date a) seed_store = rev seed_store" by code_simp
  show ?thesis
    using export_defaults_to_json [OF x, of sample_num seed_store 1709210096789]
      export_defaults_to_json [OF n, of sample_num seed_store 1709210096789]
    unfolding d l s by simp
qed

end
